theory Spec2Isabelle
  imports Complex_Main "HOL-Library.AList" "HOL-Library.Multiset" "HOL-Library.Sublist"
begin

section \<open>JavaScript numbers\<close>

text \<open>
  Every quantity of the bot (balances, prices, weights, thresholds) is a JavaScript
  number.  The model keeps the three special values of a double, because the code
  tests for them (\<^verbatim>\<open>isNaN\<close>, \<^verbatim>\<open>|| 0\<close>) and because a missing key of an
  object reads as \<^verbatim>\<open>undefined\<close>, which every arithmetic operator and every
  comparison of the code turns into NaN.  In the model of the planner the finite values
  are exact reals, with neither rounding nor overflow; its theorems are about the order
  of the steps and about comparisons of values that the code itself computed.  The
  rounded operations of a double are at the end of the definitions, with the functions
  whose claims depend on rounding.  The sign of zero is not modelled.
\<close>

datatype jsnum = Num real | PInf | NInf | NaN

fun js_isNaN :: "jsnum \<Rightarrow> bool" where
  "js_isNaN NaN = True"
| "js_isNaN _ = False"

text \<open>\<^verbatim>\<open>Number.isFinite\<close>, and the real value of a finite number.\<close>

fun js_finite :: "jsnum \<Rightarrow> bool" where
  "js_finite (Num a) = True"
| "js_finite _ = False"

fun the_real :: "jsnum \<Rightarrow> real" where
  "the_real (Num a) = a"
| "the_real _ = 0"

fun js_neg :: "jsnum \<Rightarrow> jsnum" where
  "js_neg (Num a) = Num (- a)"
| "js_neg PInf = NInf"
| "js_neg NInf = PInf"
| "js_neg NaN = NaN"

fun js_add :: "jsnum \<Rightarrow> jsnum \<Rightarrow> jsnum" where
  "js_add (Num a) (Num b) = Num (a + b)"
| "js_add NaN _ = NaN"
| "js_add _ NaN = NaN"
| "js_add PInf NInf = NaN"
| "js_add NInf PInf = NaN"
| "js_add PInf _ = PInf"
| "js_add _ PInf = PInf"
| "js_add NInf _ = NInf"
| "js_add _ NInf = NInf"

definition js_sub :: "jsnum \<Rightarrow> jsnum \<Rightarrow> jsnum" where
  "js_sub a b = js_add a (js_neg b)"

text \<open>The sign of a number that is not NaN: \<open>-1\<close>, \<open>0\<close> or \<open>1\<close>.\<close>

fun js_sign :: "jsnum \<Rightarrow> int" where
  "js_sign (Num a) = (if a < 0 then - 1 else if a = 0 then 0 else 1)"
| "js_sign PInf = 1"
| "js_sign NInf = - 1"
| "js_sign NaN = 0"

definition signed_inf :: "int \<Rightarrow> jsnum" where
  "signed_inf s = (if s = 0 then NaN else if s < 0 then NInf else PInf)"

fun js_mul :: "jsnum \<Rightarrow> jsnum \<Rightarrow> jsnum" where
  "js_mul (Num a) (Num b) = Num (a * b)"
| "js_mul NaN _ = NaN"
| "js_mul _ NaN = NaN"
| "js_mul a b = signed_inf (js_sign a * js_sign b)"

text \<open>
  Division: a finite number over an infinity is zero, an infinity over an infinity
  is NaN, and a division by zero gives NaN for \<open>0 / 0\<close> and an infinity otherwise.
\<close>

fun js_div :: "jsnum \<Rightarrow> jsnum \<Rightarrow> jsnum" where
  "js_div (Num a) (Num b) =
     (if b = 0 then signed_inf (js_sign (Num a)) else Num (a / b))"
| "js_div NaN _ = NaN"
| "js_div _ NaN = NaN"
| "js_div (Num a) _ = Num 0"
| "js_div a (Num b) = signed_inf (js_sign a * (if b < 0 then - 1 else 1))"
| "js_div _ _ = NaN"

fun js_abs :: "jsnum \<Rightarrow> jsnum" where
  "js_abs (Num a) = Num \<bar>a\<bar>"
| "js_abs PInf = PInf"
| "js_abs NInf = PInf"
| "js_abs NaN = NaN"

text \<open>Comparisons: every comparison with NaN is false.\<close>

fun js_lt :: "jsnum \<Rightarrow> jsnum \<Rightarrow> bool" where
  "js_lt (Num a) (Num b) = (a < b)"
| "js_lt NaN _ = False"
| "js_lt _ NaN = False"
| "js_lt _ NInf = False"
| "js_lt PInf _ = False"
| "js_lt _ _ = True"

fun js_le :: "jsnum \<Rightarrow> jsnum \<Rightarrow> bool" where
  "js_le (Num a) (Num b) = (a \<le> b)"
| "js_le NaN _ = False"
| "js_le _ NaN = False"
| "js_le NInf _ = True"
| "js_le _ PInf = True"
| "js_le _ _ = False"

definition js_gt :: "jsnum \<Rightarrow> jsnum \<Rightarrow> bool" where
  "js_gt a b = js_lt b a"

definition js_ge :: "jsnum \<Rightarrow> jsnum \<Rightarrow> bool" where
  "js_ge a b = js_le b a"

text \<open>\<^verbatim>\<open>Math.min(a, b)\<close>: NaN when either argument is NaN.\<close>

definition js_min :: "jsnum \<Rightarrow> jsnum \<Rightarrow> jsnum" where
  "js_min a b = (if js_isNaN a \<or> js_isNaN b then NaN else if js_le a b then a else b)"

text \<open>\<^verbatim>\<open>Math.max(a, b)\<close> and \<^verbatim>\<open>Math.floor(a)\<close>.\<close>

definition js_max :: "jsnum \<Rightarrow> jsnum \<Rightarrow> jsnum" where
  "js_max a b = (if js_isNaN a \<or> js_isNaN b then NaN else if js_le a b then b else a)"

fun js_floor :: "jsnum \<Rightarrow> jsnum" where
  "js_floor (Num a) = Num (of_int \<lfloor>a\<rfloor>)"
| "js_floor x = x"

text \<open>\<^verbatim>\<open>x || 0\<close> on numbers: zero and NaN are the falsy numbers.\<close>

definition js_falsy :: "jsnum \<Rightarrow> bool" where
  "js_falsy x = (x = Num 0 \<or> x = NaN)"

definition js_or0 :: "jsnum \<Rightarrow> jsnum" where
  "js_or0 x = (if js_falsy x then Num 0 else x)"

text \<open>\<^verbatim>\<open>xs.reduce((sum, x) => sum + x, 0)\<close>.\<close>

definition js_sum :: "jsnum list \<Rightarrow> jsnum" where
  "js_sum xs = foldl js_add (Num 0) xs"

section \<open>Objects used as maps\<close>

text \<open>
  A balance, price or weight map is a JavaScript object: its keys in insertion
  order, each with a number.  The model is an association list.  \<open>get\<close> is the
  read \<^verbatim>\<open>m[k]\<close> as the arithmetic of the code sees it (NaN for a missing key);
  \<open>put\<close> is the write \<^verbatim>\<open>m[k] = v\<close> (in place for an existing key, appended for
  a new one).
\<close>

type_synonym jsobj = "(string \<times> jsnum) list"

definition keys :: "jsobj \<Rightarrow> string list" where
  "keys m = map fst m"

definition get :: "jsobj \<Rightarrow> string \<Rightarrow> jsnum" where
  "get m k = (case map_of m k of None \<Rightarrow> NaN | Some v \<Rightarrow> v)"

definition put :: "jsobj \<Rightarrow> string \<Rightarrow> jsnum \<Rightarrow> jsobj" where
  "put m k v = AList.update k v m"

section \<open>Weight calculator\<close>

text \<open>
  \<^verbatim>\<open>calculateWeights(balances, prices)\<close>.  The total skips a product that is NaN;
  a zero total gives the all-zero map; otherwise each weight is
  \<^verbatim>\<open>(balances[token] * prices[token] / totalValue) || 0\<close>.
\<close>

definition token_value :: "jsobj \<Rightarrow> jsobj \<Rightarrow> string \<Rightarrow> jsnum" where
  "token_value balances prices token = js_mul (get balances token) (get prices token)"

definition weights_totalValue :: "jsobj \<Rightarrow> jsobj \<Rightarrow> jsnum" where
  "weights_totalValue balances prices =
     foldl (\<lambda>sum token.
              let v = token_value balances prices token
              in js_add sum (if js_isNaN v then Num 0 else v))
           (Num 0) (keys balances)"

text \<open>What a product contributes to the total.\<close>

definition nan0 :: "jsnum \<Rightarrow> jsnum" where
  "nan0 v = (if js_isNaN v then Num 0 else v)"

definition calculateWeights :: "jsobj \<Rightarrow> jsobj \<Rightarrow> jsobj" where
  "calculateWeights balances prices =
     (let totalValue = weights_totalValue balances prices
      in if totalValue = Num 0
         then map (\<lambda>token. (token, Num 0)) (keys balances)
         else map (\<lambda>token.
                     (token, js_or0 (js_div (token_value balances prices token) totalValue)))
                  (keys balances))"


section \<open>The bot\<close>

text \<open>
  The fields of \<^verbatim>\<open>RebalanceBot\<close> that the decision engine reads or writes.
  \<open>cache_maxAge\<close> is optional because the object stored by
  \<^verbatim>\<open>getPricesFromBinance\<close> has no such property.  Times are milliseconds, as
  \<^verbatim>\<open>Date.now()\<close> returns them; \<open>startDate\<close> is the instant that
  \<^verbatim>\<open>new Date(this.startDate).getTime()\<close> reads from the stored string.
\<close>

record price_cache =
  cache_prices :: jsobj
  cache_timestamp :: int
  cache_maxAge :: "int option"

record bot =
  weights :: jsobj
  deviationThreshold :: jsnum
  minTradeUSD :: jsnum
  baseToken :: string
  initialBalances :: jsobj
  startDate :: jsnum
  lastKnownPrices :: jsobj
  priceCache :: price_cache

definition tokens :: "string list" where
  "tokens = [''cbBTC'', ''WETH'', ''cbXRP'', ''cbADA'', ''cbDOGE'', ''AAVE'']"

text \<open>The cache as the constructor creates it.\<close>

definition initial_cache :: price_cache where
  "initial_cache = \<lparr>cache_prices = [], cache_timestamp = 0, cache_maxAge = Some (5 * 60 * 1000)\<rparr>"

subsection \<open>Target weights at start-up and through the web interface\<close>

text \<open>
  The constructor reads \<^verbatim>\<open>process.env.CUSTOM_WEIGHTS\<close>: unset, a string that
  \<^verbatim>\<open>JSON.parse\<close> rejects, or a parsed object.  It has no other branch: no
  path of the constructor throws or changes a parsed map.
\<close>

datatype custom_weights = Unset | Unparseable | Parsed jsobj

definition equal_allocation :: "string list \<Rightarrow> jsobj" where
  "equal_allocation ts = map (\<lambda>token. (token, js_div (Num 1) (Num (real (length ts))))) ts"

definition constructor_weights :: "custom_weights \<Rightarrow> jsobj" where
  "constructor_weights env =
     (case env of
        Parsed w \<Rightarrow> w
      | Unparseable \<Rightarrow> equal_allocation tokens
      | Unset \<Rightarrow> equal_allocation tokens)"

text \<open>
  The constructor on a first run (no saved data file).  The two numbers are what
  \<^verbatim>\<open>parseFloat\<close> reads from \<^verbatim>\<open>DEVIATION_THRESHOLD\<close> and \<^verbatim>\<open>MIN_TRADE_USD\<close>
  (NaN when unset); \<open>now\<close> is the clock.
\<close>

definition new_bot :: "custom_weights \<Rightarrow> jsnum \<Rightarrow> jsnum \<Rightarrow> jsnum \<Rightarrow> bot" where
  "new_bot env envThreshold envMinTrade now =
     \<lparr>weights = constructor_weights env,
      deviationThreshold = (if js_falsy envThreshold then Num (5 / 100) else envThreshold),
      minTradeUSD = (if js_falsy envMinTrade then Num 5 else envMinTrade),
      baseToken = ''WETH'',
      initialBalances =
        [(''cbBTC'', Num (39425 / 10 ^ 8)),
         (''WETH'', Num (11770838913082286 / 10 ^ 18)),
         (''cbXRP'', Num (14372532 / 10 ^ 6)),
         (''cbADA'', Num (57198991 / 10 ^ 6)),
         (''cbDOGE'', Num (19363635038 / 10 ^ 8)),
         (''AAVE'', Num (14303047477213357 / 10 ^ 17))],
      startDate = now,
      lastKnownPrices = [],
      priceCache = initial_cache\<rparr>"

text \<open>
  \<^verbatim>\<open>POST /api/config\<close>, the part that handles \<^verbatim>\<open>customWeights\<close>: the only
  place that looks at the sum of the weights.  \<open>Inl\<close> is the 400 response.
\<close>

datatype http_error = Weights_must_sum_to_100

definition api_config_weights :: "bot \<Rightarrow> jsobj \<Rightarrow> http_error + bot" where
  "api_config_weights b customWeights =
     (let totalWeight = js_sum (map snd customWeights)
      in if js_gt (js_abs (js_sub totalWeight (Num 1))) (Num (1 / 100))
         then Inl Weights_must_sum_to_100
         else Inr (b\<lparr>weights := customWeights\<rparr>))"

section \<open>Price cache\<close>

text \<open>
  \<^verbatim>\<open>{ ...a, ...b }\<close>: the keys of \<open>a\<close> in their order, then the new keys of
  \<open>b\<close>; values of \<open>b\<close> win.
\<close>

definition spread :: "jsobj \<Rightarrow> jsobj \<Rightarrow> jsobj" where
  "spread a b = foldl (\<lambda>m (k, v). put m k v) a b"

definition symbolMap :: "(string \<times> string) list" where
  "symbolMap =
     [(''cbBTC'', ''BTCUSDT''), (''WETH'', ''ETHUSDT''), (''cbXRP'', ''XRPUSDT''),
      (''cbADA'', ''ADAUSDT''), (''cbDOGE'', ''DOGEUSDT''), (''AAVE'', ''AAVEUSDT'')]"

definition reverseMap :: "(string \<times> string) list" where
  "reverseMap = map (\<lambda>(k, v). (v, k)) symbolMap"

text \<open>
  The response of the price source is \<open>None\<close> when the request throws or the
  status is not ok, and the list of tickers (symbol, \<^verbatim>\<open>parseFloat(price)\<close>)
  otherwise.  \<open>now\<close> is the clock when the cache entry is written.
\<close>

definition ticker_prices :: "(string \<times> jsnum) list \<Rightarrow> jsobj" where
  "ticker_prices data =
     foldl (\<lambda>prices (symbol, price).
              case map_of reverseMap symbol of
                None \<Rightarrow> prices
              | Some token \<Rightarrow> put prices token price)
           [] data"

definition getPricesFromBinance ::
  "bot \<Rightarrow> int \<Rightarrow> (string \<times> jsnum) list option \<Rightarrow> jsobj option \<times> bot" where
  "getPricesFromBinance b now response =
     (case response of
        None \<Rightarrow> (None, b)
      | Some data \<Rightarrow>
          let prices = ticker_prices data
          in if length (keys prices) \<ge> 6
             then (Some prices,
                   b\<lparr>priceCache :=
                        \<lparr>cache_prices = prices, cache_timestamp = now, cache_maxAge = None\<rparr>,
                      lastKnownPrices := spread (lastKnownPrices b) prices\<rparr>)
             else (None, b))"

text \<open>
  \<^verbatim>\<open>getPrices\<close> returns a price map or \<^verbatim>\<open>null\<close>; the constructor of the answer
  records which of its four \<^verbatim>\<open>return\<close> statements produced it.  \<open>now\<close> is
  the clock at entry, \<open>now'\<close> the clock read by the fetch.
\<close>

datatype prices_answer = Cached jsobj | Fetched jsobj | LastKnown jsobj | NoPrices

definition cache_fresh :: "price_cache \<Rightarrow> int \<Rightarrow> bool" where
  "cache_fresh c now =
     (cache_timestamp c \<noteq> 0 \<and>
      (case cache_maxAge c of None \<Rightarrow> False | Some maxAge \<Rightarrow> now - cache_timestamp c < maxAge))"

definition getPrices ::
  "bot \<Rightarrow> int \<Rightarrow> int \<Rightarrow> (string \<times> jsnum) list option \<Rightarrow> prices_answer \<times> bot" where
  "getPrices b now now' response =
     (if cache_fresh (priceCache b) now then (Cached (cache_prices (priceCache b)), b)
      else case getPricesFromBinance b now' response of
             (Some prices, b1) \<Rightarrow>
               (Fetched prices, b1\<lparr>lastKnownPrices := spread (lastKnownPrices b1) prices\<rparr>)
           | (None, b1) \<Rightarrow>
               if keys (lastKnownPrices b1) \<noteq> [] then (LastKnown (lastKnownPrices b1), b1)
               else (NoPrices, b1))"

text \<open>A cache entry that no clock value makes fresh.\<close>

definition never_fresh :: "bot \<Rightarrow> bool" where
  "never_fresh b =
     (cache_timestamp (priceCache b) = 0 \<or> cache_maxAge (priceCache b) = None)"

section \<open>Baseline tracker\<close>

record comparison =
  currentValue :: jsnum
  hodlValue :: jsnum
  initialValue :: jsnum
  rebalanceGainLoss :: jsnum
  hodlGainLoss :: jsnum
  rebalanceVsHodl :: jsnum
  rebalanceGainLossPercent :: jsnum
  hodlGainLossPercent :: jsnum
  rebalanceVsHodlPercent :: jsnum
  daysSinceStart :: jsnum
  comparison_startDate :: jsnum

definition value_of :: "jsobj \<Rightarrow> (string \<Rightarrow> jsnum) \<Rightarrow> jsnum" where
  "value_of balances price =
     foldl (\<lambda>sum token. js_add sum (js_mul (get balances token) (price token)))
           (Num 0) (keys balances)"

definition percent_of :: "jsnum \<Rightarrow> jsnum \<Rightarrow> jsnum" where
  "percent_of gain base =
     (if js_gt base (Num 0) then js_mul (js_div gain base) (Num 100) else Num 0)"

definition calculateHodlComparison :: "bot \<Rightarrow> jsnum \<Rightarrow> jsobj \<Rightarrow> jsobj \<Rightarrow> comparison" where
  "calculateHodlComparison b now currentBalances currentPrices =
     (let cur = value_of currentBalances (get currentPrices);
          hodl = value_of (initialBalances b) (get currentPrices);
          init = (if keys (lastKnownPrices b) \<noteq> []
                  then value_of (initialBalances b)
                         (\<lambda>token. if js_falsy (get (lastKnownPrices b) token)
                                   then get currentPrices token
                                   else get (lastKnownPrices b) token)
                  else hodl)
      in \<lparr>currentValue = cur,
          hodlValue = hodl,
          initialValue = init,
          rebalanceGainLoss = js_sub cur init,
          hodlGainLoss = js_sub hodl init,
          rebalanceVsHodl = js_sub cur hodl,
          rebalanceGainLossPercent = percent_of (js_sub cur init) init,
          hodlGainLossPercent = percent_of (js_sub hodl init) init,
          rebalanceVsHodlPercent = percent_of (js_sub cur hodl) hodl,
          daysSinceStart =
            js_max (Num 1)
              (js_floor (js_div (js_sub now (startDate b)) (Num (1000 * 60 * 60 * 24)))),
          comparison_startDate = startDate b\<rparr>)"

section \<open>Swap executor\<close>

text \<open>
  \<^verbatim>\<open>swap(fromToken, toToken, amount)\<close> returns a boolean and never throws: the
  allowance step returns false on any error and everything after it runs inside one
  \<^verbatim>\<open>try\<close>.  What the chain and the settlement API answer is the \<open>world\<close>:
  the outcome of the n-th call that gets past the same-token guard.  An amount that
  is not finite fails before any order is built (\<^verbatim>\<open>parseUnits\<close> rejects the
  text that \<^verbatim>\<open>toFixed\<close> prints for it).

  The state of one rebalance pass is the in-memory balance map, the number of calls
  answered by the world so far, and a trace.  The trace is instrumentation: it
  records, in program order, the \<^verbatim>\<open>Processing\<close> log line of each trade, every
  order posted to the settlement API, every call of \<^verbatim>\<open>this.swap\<close> with the local
  variables of the calling phase and the boolean it returned, the balance map after
  every in-memory update, and in the deficit phase the candidates skipped as too
  small and the \<^verbatim>\<open>break\<close>.
\<close>

datatype swap_outcome = AllowanceFailed | FailedBeforeOrder | OrderRejected | OrderAccepted

type_synonym world = "nat \<Rightarrow> swap_outcome"

datatype phase = SellPhase | DeficitPhase | BuyPhase

text \<open>
  The local variables at a swap call.  Sell phase: the current value and the target
  value of the token.  Deficit phase: the excess value of the candidate, the remaining
  need before the sale and the sell value.  Buy phase: the needed value.
\<close>

datatype swap_context =
    SellCtx jsnum jsnum
  | DeficitCtx jsnum jsnum jsnum
  | BuyCtx jsnum

fun ctx_phase :: "swap_context \<Rightarrow> phase" where
  "ctx_phase (SellCtx _ _) = SellPhase"
| "ctx_phase (DeficitCtx _ _ _) = DeficitPhase"
| "ctx_phase (BuyCtx _) = BuyPhase"

text \<open>
  \<open>DeficitSkip\<close> carries the token, its excess value, the remaining need and the
  sell value; \<open>DeficitEnough\<close> the remaining need at the \<^verbatim>\<open>break\<close>.
\<close>

datatype event =
    Processing phase string
  | SwapCall swap_context string string jsnum bool
  | Order swap_context string string jsnum
  | Updated phase jsobj
  | DeficitSkip string jsnum jsnum jsnum
  | DeficitEnough jsnum

record pass_state =
  bal :: jsobj
  answered :: nat
  trace :: "event list"

definition emit :: "event \<Rightarrow> pass_state \<Rightarrow> pass_state" where
  "emit e st = st\<lparr>trace := trace st @ [e]\<rparr>"

definition swap ::
  "world \<Rightarrow> swap_context \<Rightarrow> pass_state \<Rightarrow> string \<Rightarrow> string \<Rightarrow> jsnum \<Rightarrow> bool \<times> pass_state" where
  "swap w ctx st fromToken toToken amount =
     (let returned = (\<lambda>ok s. (ok, emit (SwapCall ctx fromToken toToken amount ok) s))
      in if fromToken = toToken then returned False st
         else
           let st1 = st\<lparr>answered := Suc (answered st)\<rparr>
           in case w (answered st) of
                AllowanceFailed \<Rightarrow> returned False st1
              | FailedBeforeOrder \<Rightarrow> returned False st1
              | OrderRejected \<Rightarrow>
                  if js_finite amount
                  then returned False (emit (Order ctx fromToken toToken amount) st1)
                  else returned False st1
              | OrderAccepted \<Rightarrow>
                  if js_finite amount
                  then returned True (emit (Order ctx fromToken toToken amount) st1)
                  else returned False st1)"

text \<open>Reading a trace: the phase of an event, and the order of the phases.\<close>

fun ev_phase :: "event \<Rightarrow> phase" where
  "ev_phase (Processing ph _) = ph"
| "ev_phase (SwapCall ctx _ _ _ _) = ctx_phase ctx"
| "ev_phase (Order ctx _ _ _) = ctx_phase ctx"
| "ev_phase (Updated ph _) = ph"
| "ev_phase (DeficitSkip _ _ _ _) = DeficitPhase"
| "ev_phase (DeficitEnough _) = DeficitPhase"

fun phase_rank :: "phase \<Rightarrow> nat" where
  "phase_rank SellPhase = 0"
| "phase_rank DeficitPhase = 1"
| "phase_rank BuyPhase = 2"

text \<open>The tokens of the \<^verbatim>\<open>Processing\<close> lines of a phase, in order.\<close>

fun processed :: "phase \<Rightarrow> event list \<Rightarrow> string list" where
  "processed ph [] = []"
| "processed ph (Processing ph' token # es) =
     (if ph' = ph then token # processed ph es else processed ph es)"
| "processed ph (_ # es) = processed ph es"

text \<open>A call of \<^verbatim>\<open>this.swap\<close> that returned true.\<close>

fun succeeded :: "event \<Rightarrow> bool" where
  "succeeded (SwapCall _ _ _ _ ok) = ok"
| "succeeded _ = False"

text \<open>The events that a step added to the trace.\<close>

definition new_events :: "pass_state \<Rightarrow> pass_state \<Rightarrow> event list" where
  "new_events st st' = drop (length (trace st)) (trace st')"

text \<open>
  \<open>grows P st st'\<close>: the trace of \<open>st'\<close> is that of \<open>st\<close> followed by events
  that all satisfy \<open>P\<close>.
\<close>

definition grows :: "(event \<Rightarrow> bool) \<Rightarrow> pass_state \<Rightarrow> pass_state \<Rightarrow> bool" where
  "grows P st st' = (\<exists>evs. trace st' = trace st @ evs \<and> list_all P evs)"

text \<open>
  The direction of a swap call: in the sell and deficit phases the base token is what
  is bought; in the buy phase it is what is sold, and never what is bought.
\<close>

fun swap_direction_ok :: "string \<Rightarrow> event \<Rightarrow> bool" where
  "swap_direction_ok base (SwapCall (BuyCtx _) f t _ _) = (f = base \<and> t \<noteq> base)"
| "swap_direction_ok base (SwapCall _ f t _ _) = (t = base)"
| "swap_direction_ok base _ = True"

text \<open>
  \<open>quiet st st'\<close>: the trace has grown, and either a swap call among the new events
  returned true or the balance map is the same.
\<close>

definition quiet :: "pass_state \<Rightarrow> pass_state \<Rightarrow> bool" where
  "quiet st st' =
     (\<exists>evs. trace st' = trace st @ evs \<and> (list_ex succeeded evs \<or> bal st' = bal st))"

section \<open>Deviation detector\<close>

type_synonym trade = "string \<times> jsnum"

text \<open>The total of \<^verbatim>\<open>rebalance\<close>: no NaN guard here.\<close>

definition rebalance_totalValue :: "jsobj \<Rightarrow> jsobj \<Rightarrow> jsnum" where
  "rebalance_totalValue balances prices =
     foldl (\<lambda>sum t. js_add sum (js_mul (get balances t) (get prices t)))
           (Num 0) (keys balances)"

definition deviation :: "bot \<Rightarrow> jsobj \<Rightarrow> string \<Rightarrow> jsnum" where
  "deviation b currentWeights token = js_sub (get currentWeights token) (get (weights b) token)"

text \<open>\<^verbatim>\<open>for (const token in currentWeights)\<close>, pushing the flagged intents.\<close>

fun detect_trades :: "bot \<Rightarrow> jsobj \<Rightarrow> jsnum \<Rightarrow> string list \<Rightarrow> trade list" where
  "detect_trades b currentWeights totalValue [] = []"
| "detect_trades b currentWeights totalValue (token # rest) =
     (let diff = deviation b currentWeights token;
          valueDiff = js_mul diff totalValue
      in if js_gt (js_abs diff) (deviationThreshold b)
         then if js_gt (js_abs valueDiff) (minTradeUSD b)
              then (token, diff) # detect_trades b currentWeights totalValue rest
              else detect_trades b currentWeights totalValue rest
         else detect_trades b currentWeights totalValue rest)"

definition trade_intents :: "bot \<Rightarrow> jsobj \<Rightarrow> jsobj \<Rightarrow> jsobj \<Rightarrow> trade list" where
  "trade_intents b currentWeights balances prices =
     detect_trades b currentWeights (rebalance_totalValue balances prices) (keys currentWeights)"

section \<open>Trade planner\<close>

text \<open>
  \<^verbatim>\<open>Array.prototype.sort(cmp)\<close> is a stable sort; a comparator result that is
  positive puts the first argument after the second, and NaN counts as zero.  For a
  comparator that orders its arguments consistently every stable sort returns the
  same list, so the model is insertion sort.
\<close>

fun js_insert :: "('a \<Rightarrow> 'a \<Rightarrow> jsnum) \<Rightarrow> 'a \<Rightarrow> 'a list \<Rightarrow> 'a list" where
  "js_insert cmp x [] = [x]"
| "js_insert cmp x (y # ys) =
     (if js_gt (cmp x y) (Num 0) then y # js_insert cmp x ys else x # y # ys)"

definition js_sort :: "('a \<Rightarrow> 'a \<Rightarrow> jsnum) \<Rightarrow> 'a list \<Rightarrow> 'a list" where
  "js_sort cmp xs = foldr (js_insert cmp) xs []"

definition sellTrades :: "trade list \<Rightarrow> trade list" where
  "sellTrades trades =
     js_sort (\<lambda>a b. js_sub (snd b) (snd a)) (filter (\<lambda>t. js_gt (snd t) (Num 0)) trades)"

definition buyTrades :: "trade list \<Rightarrow> trade list" where
  "buyTrades trades =
     js_sort (\<lambda>a b. js_sub (snd a) (snd b)) (filter (\<lambda>t. js_lt (snd t) (Num 0)) trades)"

subsection \<open>Sell phase\<close>

definition sell_trade ::
  "bot \<Rightarrow> world \<Rightarrow> jsobj \<Rightarrow> jsnum \<Rightarrow> pass_state \<Rightarrow> trade \<Rightarrow> pass_state" where
  "sell_trade b w prices totalValue st trade =
     (let token = fst trade;
          st0 = emit (Processing SellPhase token) st;
          currentValue = js_mul (get (bal st0) token) (get prices token);
          targetValue = js_mul totalValue (get (weights b) token);
          excessValue = js_sub currentValue targetValue;
          sellAmount = js_div excessValue (get prices token)
      in if js_ge sellAmount (Num (1 / 100000))
         then case swap w (SellCtx currentValue targetValue) st0 token (baseToken b) sellAmount of
                (swapSuccess, st1) \<Rightarrow>
                  if swapSuccess
                  then
                    let b1 = put (bal st1) token (js_sub (get (bal st1) token) sellAmount);
                        wethReceived =
                          js_mul (js_div excessValue (get prices (baseToken b))) (Num (98 / 100));
                        b2 = put b1 (baseToken b) (js_add (get b1 (baseToken b)) wethReceived)
                    in emit (Updated SellPhase b2) (st1\<lparr>bal := b2\<rparr>)
                  else st1
         else st0)"

definition sell_phase ::
  "bot \<Rightarrow> world \<Rightarrow> jsobj \<Rightarrow> jsnum \<Rightarrow> pass_state \<Rightarrow> trade list \<Rightarrow> pass_state" where
  "sell_phase b w prices totalValue st trades = foldl (sell_trade b w prices totalValue) st trades"

subsection \<open>Base-token deficit phase\<close>

record overweight =
  ow_token :: string
  ow_diff :: jsnum
  ow_excessValue :: jsnum
  ow_currentValue :: jsnum
  ow_targetValue :: jsnum

text \<open>
  \<^verbatim>\<open>for (const token in currentWeights)\<close>: every token but the base token whose
  weight deviation is positive, with its excess value on the balances of this moment.
\<close>

fun find_overweight ::
  "bot \<Rightarrow> jsobj \<Rightarrow> jsobj \<Rightarrow> jsobj \<Rightarrow> jsnum \<Rightarrow> string list \<Rightarrow> overweight list" where
  "find_overweight b currentWeights balances prices totalValue [] = []"
| "find_overweight b currentWeights balances prices totalValue (token # rest) =
     (if token = baseToken b
      then find_overweight b currentWeights balances prices totalValue rest
      else
        let diff = deviation b currentWeights token
        in if js_gt diff (Num 0)
           then
             (let currentValue = js_mul (get balances token) (get prices token);
                  targetValue = js_mul totalValue (get (weights b) token);
                  excessValue = js_sub currentValue targetValue
              in \<lparr>ow_token = token, ow_diff = diff, ow_excessValue = excessValue,
                  ow_currentValue = currentValue, ow_targetValue = targetValue\<rparr>
                 # find_overweight b currentWeights balances prices totalValue rest)
           else find_overweight b currentWeights balances prices totalValue rest)"

definition overweightTokens ::
  "bot \<Rightarrow> jsobj \<Rightarrow> jsobj \<Rightarrow> jsobj \<Rightarrow> jsnum \<Rightarrow> overweight list" where
  "overweightTokens b currentWeights balances prices totalValue =
     js_sort (\<lambda>x y. js_sub (ow_excessValue y) (ow_excessValue x))
       (find_overweight b currentWeights balances prices totalValue (keys currentWeights))"

text \<open>
  \<^verbatim>\<open>for (const overweight of overweightTokens)\<close>, with \<^verbatim>\<open>remainingNeeded\<close> as
  an argument; the first equation of the second case is the \<^verbatim>\<open>break\<close>.
\<close>

fun deficit_loop ::
  "bot \<Rightarrow> world \<Rightarrow> jsobj \<Rightarrow> jsnum \<Rightarrow> pass_state \<Rightarrow> overweight list \<Rightarrow> pass_state" where
  "deficit_loop b w prices remainingNeeded st [] = st"
| "deficit_loop b w prices remainingNeeded st (ow # rest) =
     (if js_le remainingNeeded (Num 1) then emit (DeficitEnough remainingNeeded) st
      else
        let sellValue = js_min (ow_excessValue ow) remainingNeeded
        in if js_gt sellValue (minTradeUSD b)
           then
             (let sellAmount = js_div sellValue (get prices (ow_token ow))
              in case swap w (DeficitCtx (ow_excessValue ow) remainingNeeded sellValue) st
                        (ow_token ow) (baseToken b) sellAmount of
                   (swapSuccess, st1) \<Rightarrow>
                     if swapSuccess
                     then
                       let b1 = put (bal st1) (ow_token ow)
                                  (js_sub (get (bal st1) (ow_token ow)) sellAmount);
                           wethReceived =
                             js_mul (js_div sellValue (get prices (baseToken b))) (Num (98 / 100));
                           b2 = put b1 (baseToken b) (js_add (get b1 (baseToken b)) wethReceived)
                       in deficit_loop b w prices (js_sub remainingNeeded sellValue)
                            (emit (Updated DeficitPhase b2) (st1\<lparr>bal := b2\<rparr>)) rest
                     else deficit_loop b w prices remainingNeeded st1 rest)
           else deficit_loop b w prices remainingNeeded
                  (emit (DeficitSkip (ow_token ow) (ow_excessValue ow) remainingNeeded sellValue) st)
                  rest)"

text \<open>The call of \<^verbatim>\<open>this.swap\<close> that the loop makes for a candidate it sells from.\<close>

definition deficit_swap ::
  "bot \<Rightarrow> world \<Rightarrow> jsobj \<Rightarrow> jsnum \<Rightarrow> pass_state \<Rightarrow> overweight \<Rightarrow> bool \<times> pass_state" where
  "deficit_swap b w prices remainingNeeded st ow =
     (let sellValue = js_min (ow_excessValue ow) remainingNeeded;
          sellAmount = js_div sellValue (get prices (ow_token ow))
      in swap w (DeficitCtx (ow_excessValue ow) remainingNeeded sellValue) st
           (ow_token ow) (baseToken b) sellAmount)"

definition neededWethValue :: "bot \<Rightarrow> jsobj \<Rightarrow> jsnum \<Rightarrow> jsobj \<Rightarrow> jsnum" where
  "neededWethValue b prices totalValue balances =
     (let currentWethValue = js_mul (get balances (baseToken b)) (get prices (baseToken b));
          targetWethValue = js_mul totalValue (get (weights b) (baseToken b))
      in js_sub targetWethValue currentWethValue)"

definition deficit_phase ::
  "bot \<Rightarrow> world \<Rightarrow> jsobj \<Rightarrow> jsobj \<Rightarrow> jsnum \<Rightarrow> pass_state \<Rightarrow> trade list \<Rightarrow> pass_state" where
  "deficit_phase b w currentWeights prices totalValue st buys =
     (case find (\<lambda>t. fst t = baseToken b) buys of
        None \<Rightarrow> st
      | Some wethTrade \<Rightarrow>
          let st0 = emit (Processing DeficitPhase (baseToken b)) st
          in deficit_loop b w prices (neededWethValue b prices totalValue (bal st0)) st0
               (overweightTokens b currentWeights (bal st0) prices totalValue))"

subsection \<open>Buy phase\<close>

definition buy_trade ::
  "bot \<Rightarrow> world \<Rightarrow> jsobj \<Rightarrow> jsnum \<Rightarrow> pass_state \<Rightarrow> trade \<Rightarrow> pass_state" where
  "buy_trade b w prices totalValue st trade =
     (let token = fst trade;
          st0 = emit (Processing BuyPhase token) st
      in if token = baseToken b then st0
         else
           let currentValue = js_mul (get (bal st0) token) (get prices token);
               targetValue = js_mul totalValue (get (weights b) token);
               neededValue = js_sub targetValue currentValue;
               wethAmount = js_div neededValue (get prices (baseToken b))
           in if js_ge wethAmount (Num (1 / 10000))
              then if js_ge (get (bal st0) (baseToken b)) wethAmount
                   then case swap w (BuyCtx neededValue) st0 (baseToken b) token wethAmount of
                          (swapSuccess, st1) \<Rightarrow>
                            if swapSuccess
                            then
                              let b1 = put (bal st1) (baseToken b)
                                         (js_sub (get (bal st1) (baseToken b)) wethAmount)
                              in emit (Updated BuyPhase b1) (st1\<lparr>bal := b1\<rparr>)
                            else st1
                   else st0
              else st0)"

definition buy_phase ::
  "bot \<Rightarrow> world \<Rightarrow> jsobj \<Rightarrow> jsnum \<Rightarrow> pass_state \<Rightarrow> trade list \<Rightarrow> pass_state" where
  "buy_phase b w prices totalValue st trades = foldl (buy_trade b w prices totalValue) st trades"

subsection \<open>The pass\<close>

definition rebalance :: "bot \<Rightarrow> world \<Rightarrow> jsobj \<Rightarrow> jsobj \<Rightarrow> jsobj \<Rightarrow> pass_state" where
  "rebalance b w currentWeights balances prices =
     (let totalValue = rebalance_totalValue balances prices;
          trades = trade_intents b currentWeights balances prices;
          st = \<lparr>bal = balances, answered = 0, trace = []\<rparr>
      in if trades \<noteq> []
         then
           let st1 = sell_phase b w prices totalValue st (sellTrades trades);
               st2 = deficit_phase b w currentWeights prices totalValue st1 (buyTrades trades)
           in buy_phase b w prices totalValue st2 (buyTrades trades)
         else st)"

text \<open>
  One polling cycle (and \<^verbatim>\<open>POST /api/rebalance\<close>): the current weights passed to
  \<^verbatim>\<open>rebalance\<close> are those of the weight calculator on the same maps.
\<close>

definition rebalance_pass :: "bot \<Rightarrow> world \<Rightarrow> jsobj \<Rightarrow> jsobj \<Rightarrow> pass_state" where
  "rebalance_pass b w balances prices =
     rebalance b w (calculateWeights balances prices) balances prices"

section \<open>Bots and price feeds for the examples\<close>

text \<open>
  A bot with the given target weights, deviation threshold and minimum trade value,
  WETH as its base token, and nothing saved.
\<close>

definition bot_of :: "jsobj \<Rightarrow> jsnum \<Rightarrow> jsnum \<Rightarrow> bot" where
  "bot_of ws thr mt =
     \<lparr>weights = ws, deviationThreshold = thr, minTradeUSD = mt, baseToken = ''WETH'',
      initialBalances = [], startDate = Num 0, lastKnownPrices = [],
      priceCache = initial_cache\<rparr>"

section \<open>Well-formed maps\<close>

text \<open>
  The maps of the data model: a balance map holds finite non-negative quantities, and
  a price (or weight) map gives the listed tokens a finite positive (non-negative)
  number.  \<open>priced\<close> says that every token of a balance map has a finite balance and
  a finite price.
\<close>

definition nonneg_map :: "jsobj \<Rightarrow> bool" where
  "nonneg_map m = list_all (\<lambda>kv. js_finite (snd kv) \<and> 0 \<le> the_real (snd kv)) m"

definition positive_on :: "jsobj \<Rightarrow> string list \<Rightarrow> bool" where
  "positive_on m ks = list_all (\<lambda>k. js_finite (get m k) \<and> 0 < the_real (get m k)) ks"

definition nonneg_on :: "jsobj \<Rightarrow> string list \<Rightarrow> bool" where
  "nonneg_on m ks = list_all (\<lambda>k. js_finite (get m k) \<and> 0 \<le> the_real (get m k)) ks"

text \<open>Two answers of the price source; the second lists a symbol the bot does not track.\<close>

definition tickers_a :: "(string \<times> jsnum) list" where
  "tickers_a =
     [(''BTCUSDT'', Num 100000), (''ETHUSDT'', Num 4000), (''XRPUSDT'', Num 2),
      (''ADAUSDT'', Num 1), (''DOGEUSDT'', Num (1 / 5)), (''AAVEUSDT'', Num 300)]"

definition tickers_b :: "(string \<times> jsnum) list" where
  "tickers_b =
     [(''BNBUSDT'', Num 600), (''BTCUSDT'', Num 101000), (''ETHUSDT'', Num 4100),
      (''XRPUSDT'', Num 3), (''ADAUSDT'', Num 2), (''DOGEUSDT'', Num (1 / 4)),
      (''AAVEUSDT'', Num 310)]"

text \<open>
  First example: targets 30/20/30/20 percent, threshold 2 percent, minimum trade 1, all
  prices 1 and total value 100.  A is over by 10 percent, B over by 3, C under by 8 and
  the base token under by 5.
\<close>

definition ex1_bot :: bot where
  "ex1_bot = bot_of [(''A'', Num (3 / 10)), (''B'', Num (1 / 5)), (''C'', Num (3 / 10)),
                     (''WETH'', Num (1 / 5))] (Num (1 / 50)) (Num 1)"

definition ex1_balances :: jsobj where
  "ex1_balances = [(''B'', Num 23), (''WETH'', Num 15), (''A'', Num 40), (''C'', Num 22)]"

definition ex1_prices :: jsobj where
  "ex1_prices = [(''B'', Num 1), (''WETH'', Num 1), (''A'', Num 1), (''C'', Num 1)]"

text \<open>A settlement API that accepts every order, and one that rejects the first.\<close>

definition accepting :: world where
  "accepting = (\<lambda>n. OrderAccepted)"

definition rejecting_first :: world where
  "rejecting_first = (\<lambda>n. if n = 0 then OrderRejected else OrderAccepted)"

definition rejecting_second :: world where
  "rejecting_second = (\<lambda>n. if n = 1 then OrderRejected else OrderAccepted)"

text \<open>
  Boundary example: targets 0 and 100 percent, minimum trade 0; the bot holds 0.00001 A
  at price 1 and no base token, so the sell amount of A is exactly the dust floor.
\<close>

definition ex3_bot :: bot where
  "ex3_bot = bot_of [(''A'', Num 0), (''WETH'', Num 1)] (Num (1 / 20)) (Num 0)"

definition ex3_balances :: jsobj where
  "ex3_balances = [(''A'', Num (1 / 100000)), (''WETH'', Num 0)]"

definition ex3_prices :: jsobj where
  "ex3_prices = [(''A'', Num 1), (''WETH'', Num 1)]"

section \<open>Invariants of a pass\<close>

text \<open>
  The inputs of the data model: a balance map with distinct tokens and finite
  non-negative quantities, a finite positive price and a finite non-negative target
  weight for each of its tokens, and the base token among them.  The invariants of this
  section are those of the planner on exact reals.
\<close>

definition well_formed :: "bot \<Rightarrow> jsobj \<Rightarrow> jsobj \<Rightarrow> bool" where
  "well_formed b balances prices =
     (distinct (keys balances) \<and> nonneg_map balances \<and> positive_on prices (keys balances)
      \<and> nonneg_on (weights b) (keys balances) \<and> baseToken b \<in> set (keys balances))"

text \<open>Every balance map recorded after an in-memory update is non-negative.\<close>

definition updates_nonneg :: "event list \<Rightarrow> bool" where
  "updates_nonneg evs =
     list_all (\<lambda>e. case e of Updated ph m \<Rightarrow> nonneg_map m | _ \<Rightarrow> True) evs"

text \<open>
  The excess value of a token on the balances of a state, as a real number, and the
  link between weight and value that the sell phase keeps for every token but the base
  token: a token with a positive weight deviation has no negative excess, and a token
  with a positive excess has a positive weight deviation.
\<close>

definition excess_of :: "bot \<Rightarrow> jsobj \<Rightarrow> real \<Rightarrow> jsobj \<Rightarrow> string \<Rightarrow> real" where
  "excess_of b prices T balances t =
     the_real (get balances t) * the_real (get prices t) - T * the_real (get (weights b) t)"

definition overweight_ok :: "bot \<Rightarrow> jsobj \<Rightarrow> jsobj \<Rightarrow> real \<Rightarrow> jsobj \<Rightarrow> string \<Rightarrow> bool" where
  "overweight_ok b cw prices T balances t =
     (t = baseToken b
      \<or> ((js_gt (deviation b cw t) (Num 0) \<longrightarrow> 0 \<le> excess_of b prices T balances t)
         \<and> (0 < excess_of b prices T balances t \<longrightarrow> js_gt (deviation b cw t) (Num 0))))"

definition bal_inv :: "string list \<Rightarrow> pass_state \<Rightarrow> bool" where
  "bal_inv ks st =
     (keys (bal st) = ks \<and> nonneg_map (bal st) \<and> updates_nonneg (trace st))"

definition pass_inv :: "bot \<Rightarrow> jsobj \<Rightarrow> jsobj \<Rightarrow> real \<Rightarrow> string list \<Rightarrow> pass_state \<Rightarrow> bool" where
  "pass_inv b cw prices T ks st =
     (bal_inv ks st \<and> list_all (overweight_ok b cw prices T (bal st)) ks)"

section \<open>Reading the deficit phase from a trace\<close>







text \<open>
  Deficit example: five tokens with target 20 percent each and a portfolio worth 1000.
  The base token is worth 150 (50 short), X 240, Y 230, V 205 and Z 175; with a
  threshold of 4.5 percent only the base token is flagged for a trade.
\<close>

definition ex2_bot :: bot where
  "ex2_bot = bot_of [(''WETH'', Num (1 / 5)), (''Y'', Num (1 / 5)), (''X'', Num (1 / 5)),
                     (''V'', Num (1 / 5)), (''Z'', Num (1 / 5))] (Num (9 / 200)) (Num 5)"


definition ex2_prices :: jsobj where
  "ex2_prices = [(''WETH'', Num 1000), (''Y'', Num 4), (''X'', Num 2), (''V'', Num 1),
                 (''Z'', Num 1)]"

section \<open>Double-precision arithmetic\<close>

text \<open>
  The finite numbers of the code are IEEE 754 doubles: 53 significant bits, exponents
  from \<open>-1022\<close> to \<open>1023\<close>, subnormal numbers below, and round-to-nearest with
  ties to the even significand.  \<open>fl x\<close> is the double nearest to the real \<open>x\<close>,
  or an infinity when that is beyond the largest double.

  \<open>exponent x\<close> is the binary exponent of \<open>x\<close> (\<open>2 ^ e \<le> |x| < 2 ^ (e + 1)\<close>),
  found by halving or doubling; \<open>quantum x\<close> is the exponent of the last bit of a
  double of that size; \<open>round_even\<close> rounds to the nearest integer, a tie to the even
  one.
\<close>

definition round_even :: "real \<Rightarrow> int" where
  "round_even y =
     (let f = \<lfloor>y\<rfloor>; d = y - of_int f
      in if d < 1 / 2 then f else if 1 / 2 < d then f + 1 else if even f then f else f + 1)"

fun halvings :: "nat \<Rightarrow> real \<Rightarrow> nat" where
  "halvings 0 y = 0"
| "halvings (Suc n) y = (if 2 \<le> y then Suc (halvings n (y / 2)) else 0)"

fun doublings :: "nat \<Rightarrow> real \<Rightarrow> nat" where
  "doublings 0 y = 0"
| "doublings (Suc n) y = (if y < 1 then Suc (doublings n (2 * y)) else 0)"

definition exponent :: "real \<Rightarrow> int" where
  "exponent x =
     (if 1 \<le> \<bar>x\<bar> then int (halvings 1024 \<bar>x\<bar>) else - int (doublings 1075 \<bar>x\<bar>))"

definition quantum :: "real \<Rightarrow> int" where
  "quantum x = max (exponent x - 52) (- 1074)"

definition fl :: "real \<Rightarrow> jsnum" where
  "fl x =
     (let q = quantum x;
          r = of_int (round_even (x / 2 powi q)) * 2 powi q
      in if 2 ^ 1024 \<le> \<bar>r\<bar> then (if 0 < x then PInf else NInf) else Num r)"

text \<open>
  The operators of the code on doubles: the exact result, rounded.  (The sign of a
  zero is not modelled.)
\<close>

fun rnd :: "jsnum \<Rightarrow> jsnum" where
  "rnd (Num x) = fl x"
| "rnd v = v"

definition d_add :: "jsnum \<Rightarrow> jsnum \<Rightarrow> jsnum" where
  "d_add a b = rnd (js_add a b)"

definition d_sub :: "jsnum \<Rightarrow> jsnum \<Rightarrow> jsnum" where
  "d_sub a b = rnd (js_sub a b)"

definition d_mul :: "jsnum \<Rightarrow> jsnum \<Rightarrow> jsnum" where
  "d_mul a b = rnd (js_mul a b)"

definition d_div :: "jsnum \<Rightarrow> jsnum \<Rightarrow> jsnum" where
  "d_div a b = rnd (js_div a b)"

definition d_sum :: "jsnum list \<Rightarrow> jsnum" where
  "d_sum xs = foldl d_add (Num 0) xs"

subsection \<open>The weight calculator on doubles\<close>

text \<open>\<^verbatim>\<open>calculateWeights(balances, prices)\<close> with every operation rounded.\<close>

definition token_value_d :: "jsobj \<Rightarrow> jsobj \<Rightarrow> string \<Rightarrow> jsnum" where
  "token_value_d balances prices token = d_mul (get balances token) (get prices token)"

definition weights_totalValue_d :: "jsobj \<Rightarrow> jsobj \<Rightarrow> jsnum" where
  "weights_totalValue_d balances prices =
     foldl (\<lambda>sum token.
              let v = token_value_d balances prices token
              in d_add sum (if js_isNaN v then Num 0 else v))
           (Num 0) (keys balances)"

definition calculateWeights_d :: "jsobj \<Rightarrow> jsobj \<Rightarrow> jsobj" where
  "calculateWeights_d balances prices =
     (let totalValue = weights_totalValue_d balances prices
      in if totalValue = Num 0
         then map (\<lambda>token. (token, Num 0)) (keys balances)
         else map (\<lambda>token.
                     (token, js_or0 (d_div (token_value_d balances prices token) totalValue)))
                  (keys balances))"

subsection \<open>The planner's formulas on doubles\<close>

text \<open>
  The total, the deviation test and the intents of \<^verbatim>\<open>rebalance\<close>, the candidates
  of its deficit phase and the balance update of a sale, with every operation rounded.
\<close>

definition rebalance_totalValue_d :: "jsobj \<Rightarrow> jsobj \<Rightarrow> jsnum" where
  "rebalance_totalValue_d balances prices =
     foldl (\<lambda>sum t. d_add sum (d_mul (get balances t) (get prices t)))
           (Num 0) (keys balances)"

definition deviation_d :: "bot \<Rightarrow> jsobj \<Rightarrow> string \<Rightarrow> jsnum" where
  "deviation_d b currentWeights token = d_sub (get currentWeights token) (get (weights b) token)"

fun detect_trades_d :: "bot \<Rightarrow> jsobj \<Rightarrow> jsnum \<Rightarrow> string list \<Rightarrow> trade list" where
  "detect_trades_d b currentWeights totalValue [] = []"
| "detect_trades_d b currentWeights totalValue (token # rest) =
     (let diff = deviation_d b currentWeights token;
          valueDiff = d_mul diff totalValue
      in if js_gt (js_abs diff) (deviationThreshold b)
         then if js_gt (js_abs valueDiff) (minTradeUSD b)
              then (token, diff) # detect_trades_d b currentWeights totalValue rest
              else detect_trades_d b currentWeights totalValue rest
         else detect_trades_d b currentWeights totalValue rest)"

definition trade_intents_d :: "bot \<Rightarrow> jsobj \<Rightarrow> jsobj \<Rightarrow> jsobj \<Rightarrow> trade list" where
  "trade_intents_d b currentWeights balances prices =
     detect_trades_d b currentWeights (rebalance_totalValue_d balances prices)
       (keys currentWeights)"

text \<open>\<^verbatim>\<open>currentValue - targetValue\<close> of a token, in the sell phase and in the deficit phase.\<close>

definition excessValue_d :: "bot \<Rightarrow> jsobj \<Rightarrow> jsobj \<Rightarrow> jsnum \<Rightarrow> string \<Rightarrow> jsnum" where
  "excessValue_d b balances prices totalValue token =
     (let currentValue = d_mul (get balances token) (get prices token);
          targetValue = d_mul totalValue (get (weights b) token)
      in d_sub currentValue targetValue)"



text \<open>
  The sale of a sell trade: the amount, and the balance map after a swap that
  succeeded (\<^verbatim>\<open>0.98\<close> is the double nearest to 98/100).
\<close>

definition sellAmount_d :: "bot \<Rightarrow> jsobj \<Rightarrow> jsobj \<Rightarrow> jsnum \<Rightarrow> string \<Rightarrow> jsnum" where
  "sellAmount_d b balances prices totalValue token =
     d_div (excessValue_d b balances prices totalValue token) (get prices token)"

definition sold_d :: "bot \<Rightarrow> jsobj \<Rightarrow> jsobj \<Rightarrow> jsnum \<Rightarrow> string \<Rightarrow> jsobj" where
  "sold_d b balances prices totalValue token =
     (let excessValue = excessValue_d b balances prices totalValue token;
          sellAmount = d_div excessValue (get prices token);
          b1 = put balances token (d_sub (get balances token) sellAmount);
          wethReceived = d_mul (d_div excessValue (get prices (baseToken b))) (fl (98 / 100))
      in put b1 (baseToken b) (d_add (get b1 (baseToken b)) wethReceived))"

subsection \<open>Examples on doubles\<close>




text \<open>
  Selling a whole holding: targets 0 for A and 1 for the base token, threshold 0.05,
  minimum trade 5; the bot holds 21 A at the price 3.1 (the double nearest to it) and no
  base token.
\<close>

definition ex5_bot :: bot where
  "ex5_bot = bot_of [(''A'', Num 0), (''WETH'', Num 1)]
               (Num (3602879701896397 / 72057594037927936)) (Num 5)"

definition ex5_balances :: jsobj where
  "ex5_balances = [(''A'', Num 21), (''WETH'', Num 0)]"

definition ex5_prices :: jsobj where
  "ex5_prices = [(''A'', Num (6980579422424269 / 2251799813685248)), (''WETH'', Num 1)]"

text \<open>
  A negative target: targets -0.5 for A and 1.5 for the base token (they sum to 1),
  threshold 0.05, minimum trade 5; the bot holds 10 A and no base token, at prices 1.
\<close>

definition ex6_bot :: bot where
  "ex6_bot = bot_of [(''A'', Num (- (1 / 2))), (''WETH'', Num (3 / 2))] (Num (1 / 20)) (Num 5)"

definition ex6_balances :: jsobj where
  "ex6_balances = [(''A'', Num 10), (''WETH'', Num 0)]"

definition ex6_prices :: jsobj where
  "ex6_prices = [(''A'', Num 1), (''WETH'', Num 1)]"
section \<open>Lemmas on numbers and sums\<close>

lemma js_isNaN_iff: "js_isNaN x \<longleftrightarrow> x = NaN"
  by (cases x) auto

lemma js_finite_iff: "js_finite x \<longleftrightarrow> (\<exists>r. x = Num r)"
  by (cases x) auto

lemma js_add_zero_right: "js_add s (Num 0) = s"
  by (cases s) auto

lemma js_add_not_finite: "\<not> js_finite s \<Longrightarrow> \<not> js_finite (js_add s x)"
  by (cases s; cases x) auto

lemma foldl_add_not_finite: "\<not> js_finite s \<Longrightarrow> \<not> js_finite (foldl js_add s xs)"
  by (induction xs arbitrary: s) (auto simp: js_add_not_finite)

lemma foldl_add_Num:
  "foldl js_add (Num a) xs = Num r \<Longrightarrow>
     list_all js_finite xs \<and> r = a + sum_list (map the_real xs)"
proof (induction xs arbitrary: a)
  case Nil
  then show ?case by simp
next
  case (Cons x xs)
  show ?case
  proof (cases x)
    case (Num y)
    with Cons.prems Cons.IH[of "a + y"] show ?thesis by auto
  next
    case PInf
    with Cons.prems foldl_add_not_finite[of PInf xs] show ?thesis by auto
  next
    case NInf
    with Cons.prems foldl_add_not_finite[of NInf xs] show ?thesis by auto
  next
    case NaN
    with Cons.prems foldl_add_not_finite[of NaN xs] show ?thesis by auto
  qed
qed

lemma foldl_add_finite:
  "list_all js_finite xs \<Longrightarrow> foldl js_add (Num a) xs = Num (a + sum_list (map the_real xs))"
proof (induction xs arbitrary: a)
  case Nil
  then show ?case by simp
next
  case (Cons x xs)
  then show ?case by (cases x) (auto simp: algebra_simps)
qed

lemma sum_list_div: "sum_list (map (\<lambda>x. f x / (V::real)) xs) = sum_list (map f xs) / V"
  by (induction xs) (auto simp: add_divide_distrib)

section \<open>The total of the weight calculator\<close>

lemma total_as_sum:
  "weights_totalValue b p = js_sum (map (\<lambda>t. nan0 (token_value b p t)) (keys b))"
  by (simp add: weights_totalValue_def js_sum_def foldl_map nan0_def Let_def)

section \<open>Rounding to a double\<close>

lemma halvings_numeral:
  "halvings (numeral k) y = (if 2 \<le> y then Suc (halvings (pred_numeral k) (y / 2)) else 0)"
  by (simp add: numeral_eq_Suc)

lemma doublings_numeral:
  "doublings (numeral k) y = (if y < 1 then Suc (doublings (pred_numeral k) (2 * y)) else 0)"
  by (simp add: numeral_eq_Suc)

lemma round_even_error: "\<bar>of_int (round_even y) - y\<bar> \<le> 1 / 2"
  unfolding round_even_def Let_def by (auto; linarith)

lemma round_even_of_int: "round_even (of_int k) = k"
  by (simp add: round_even_def)

lemma round_even_nonneg: "0 \<le> y \<Longrightarrow> 0 \<le> round_even y"
  unfolding round_even_def Let_def by (auto simp: add_nonneg_nonneg)

lemma round_even_mono_int: "y \<le> of_int k \<Longrightarrow> round_even y \<le> k"
  unfolding round_even_def Let_def
  by (auto; linarith)

lemma round_even_ge_int: "of_int k \<le> y \<Longrightarrow> k \<le> round_even y"
  unfolding round_even_def Let_def
  by (auto; linarith)

lemma halvings_lower: "1 \<le> y \<Longrightarrow> 2 ^ halvings n y \<le> y"
  by (induction n y rule: halvings.induct) auto

lemma halvings_upper: "halvings n y < n \<Longrightarrow> y < 2 ^ Suc (halvings n y)"
  by (induction n y rule: halvings.induct) (auto split: if_splits)

lemma halvings_le: "halvings n y \<le> n"
  by (induction n y rule: halvings.induct) auto

lemma doublings_le: "doublings n y \<le> n"
  by (induction n y rule: doublings.induct) auto

lemma doublings_lower: "doublings n y < n \<Longrightarrow> 1 \<le> y * 2 ^ doublings n y"
  by (induction n y rule: doublings.induct) (auto split: if_splits simp: mult.assoc)

lemma doublings_ge1: "1 \<le> y \<Longrightarrow> doublings n y = 0"
  by (cases n) simp_all

lemma doublings_upper: "y < 1 \<Longrightarrow> y * 2 ^ doublings n y < 2"
proof (induction n y rule: doublings.induct)
  case (1 y)
  then show ?case by simp
next
  case (2 n y)
  show ?case
  proof (cases "2 * y < 1")
    case True
    then have "2 * y * 2 ^ doublings n (2 * y) < 2" using 2 by simp
    then show ?thesis using 2(2) by (simp add: mult.assoc)
  next
    case False
    then have "doublings n (2 * y) = 0" by (simp add: doublings_ge1)
    then show ?thesis using 2(2) by simp
  qed
qed

lemma exponent_lower:
  assumes "x \<noteq> 0" "- 1075 < exponent x"
  shows "2 powi (exponent x) \<le> \<bar>x\<bar>"
proof (cases "1 \<le> \<bar>x\<bar>")
  case True
  then show ?thesis using halvings_lower[of "\<bar>x\<bar>" 1024] by (simp add: exponent_def)
next
  case False
  let ?d = "doublings 1075 \<bar>x\<bar>"
  have "?d < 1075" using assms(2) False doublings_le[of 1075 "\<bar>x\<bar>"] by (simp add: exponent_def)
  then have "1 \<le> \<bar>x\<bar> * 2 ^ ?d" by (rule doublings_lower)
  then have "1 / 2 ^ ?d \<le> \<bar>x\<bar>" by (simp add: field_simps)
  then show ?thesis using False by (simp add: exponent_def power_int_minus field_simps)
qed

lemma exponent_upper:
  assumes "exponent x < 1024"
  shows "\<bar>x\<bar> < 2 powi (exponent x + 1)"
proof (cases "1 \<le> \<bar>x\<bar>")
  case True
  let ?h = "halvings 1024 \<bar>x\<bar>"
  have "?h < 1024" using assms True by (simp add: exponent_def)
  then have "\<bar>x\<bar> < 2 ^ Suc ?h" by (rule halvings_upper)
  moreover have "(2::real) powi (int ?h + 1) = 2 ^ Suc ?h"
    by (metis of_nat_Suc power_int_of_nat add.commute Suc_eq_plus1_left)
  ultimately show ?thesis using True by (simp add: exponent_def)
next
  case False
  let ?d = "doublings 1075 \<bar>x\<bar>"
  have "\<bar>x\<bar> * 2 ^ ?d < 2" using False by (intro doublings_upper) simp
  then have "\<bar>x\<bar> < 2 / 2 ^ ?d" by (simp add: field_simps)
  moreover have "(2::real) powi (- int ?d + 1) = 2 / 2 ^ ?d"
  proof -
    have "(2::real) powi (1 - int ?d) = 2 powi 1 / 2 powi (int ?d)"
      by (rule power_int_diff) simp
    then show ?thesis by simp
  qed
  ultimately show ?thesis using False by (simp add: exponent_def)
qed

lemma exponent_range: "- 1075 \<le> exponent x \<and> exponent x \<le> 1024"
  using halvings_le[of 1024 "\<bar>x\<bar>"] doublings_le[of 1075 "\<bar>x\<bar>"]
  by (simp add: exponent_def)

lemma quantum_ge: "- 1074 \<le> quantum x"
  by (simp add: quantum_def)

lemma fl_zero: "fl 0 = Num 0"
  by (simp add: fl_def round_even_def)

lemma fl_Num:
  assumes "fl x = Num r"
  shows "r = of_int (round_even (x / 2 powi quantum x)) * 2 powi quantum x" and "\<bar>r\<bar> < 2 ^ 1024"
  using assms by (auto simp: fl_def Let_def split: if_splits)

lemma fl_half_quantum:
  assumes "fl x = Num r"
  shows "\<bar>r - x\<bar> \<le> 2 powi quantum x / 2"
proof -
  let ?q = "quantum x"
  let ?k = "round_even (x / 2 powi ?q)"
  have p: "(0::real) < 2 powi ?q" by simp
  have "r - x = (of_int ?k - x / 2 powi ?q) * 2 powi ?q"
    using fl_Num(1)[OF assms] p by (simp add: field_simps)
  then have "\<bar>r - x\<bar> = \<bar>of_int ?k - x / 2 powi ?q\<bar> * 2 powi ?q"
    by (simp add: abs_mult)
  also have "\<dots> \<le> (1 / 2) * 2 powi ?q"
    using round_even_error[of "x / 2 powi ?q"] p by (intro mult_right_mono) simp_all
  finally show ?thesis by simp
qed

lemma fl_error:
  assumes "fl x = Num r"
  shows "\<bar>r - x\<bar> \<le> \<bar>x\<bar> / 2 ^ 53 \<or> (quantum x = - 1074 \<and> \<bar>r - x\<bar> \<le> 2 powi (- 1075))"
proof (cases "quantum x = - 1074")
  case True
  then show ?thesis using fl_half_quantum[OF assms]
    by (simp add: power_int_minus)
next
  case False
  then have q: "quantum x = exponent x - 52" and e: "- 1022 < exponent x"
    by (auto simp: quantum_def max_def split: if_splits)
  have "x \<noteq> 0"
  proof
    assume "x = 0"
    then have "exponent x = - 1075" by (simp add: exponent_def doublings_numeral)
    then show False using e by simp
  qed
  then have "2 powi (exponent x) \<le> \<bar>x\<bar>" using e by (intro exponent_lower) simp_all
  moreover have "(2::real) powi quantum x / 2 = 2 powi (exponent x) / 2 ^ 53"
    unfolding q by (simp add: power_int_diff)
  ultimately have "2 powi quantum x / 2 \<le> \<bar>x\<bar> / 2 ^ 53"
    by (simp add: divide_right_mono)
  then show ?thesis using fl_half_quantum[OF assms] by linarith
qed

lemma pow2_nonneg_int: "0 \<le> n \<Longrightarrow> \<exists>m::int. (2::real) powi n = of_int m"
proof -
  assume "0 \<le> n"
  then have "(2::real) powi n = of_int (2 ^ nat n)" by (simp add: power_int_def)
  then show ?thesis by blast
qed

lemma pow2_split: "(2::real) powi q = 2 powi (q + n) * 2 powi (- n)"
  using power_int_add[of "2::real" "q + n" "- n"] by simp

lemma fl_on_grid:
  assumes "fl x = Num r"
  shows "\<exists>k::int. r = of_int k * 2 powi (- 1074)"
proof -
  let ?q = "quantum x"
  obtain m :: int where m: "(2::real) powi (?q + 1074) = of_int m"
    using pow2_nonneg_int[of "?q + 1074"] quantum_ge[of x] by auto
  have "(2::real) powi ?q = of_int m * 2 powi (- 1074)"
    using pow2_split[of ?q 1074] by (simp only: m)
  then have "r = of_int (round_even (x / 2 powi ?q)) * (of_int m * 2 powi (- 1074))"
    using fl_Num(1)[OF assms] by (simp only:)
  then have "r = of_int (round_even (x / 2 powi ?q) * m) * 2 powi (- 1074)"
    by (simp only: of_int_mult mult.assoc)
  then show ?thesis by blast
qed

lemma fl_integral:
  assumes "x / 2 powi quantum x = of_int k" "\<bar>x\<bar> < 2 ^ 1024"
  shows "fl x = Num x"
proof -
  have "(0::real) < 2 powi quantum x" by simp
  then have "of_int k * 2 powi quantum x = x"
    using assms(1) by (simp add: field_simps)
  then have "of_int (round_even (x / 2 powi quantum x)) * 2 powi quantum x = x"
    by (simp only: assms(1) round_even_of_int)
  then show ?thesis using assms(2) by (simp add: fl_def Let_def)
qed

lemma small_of_quantum:
  assumes "quantum x = - 1074"
  shows "\<bar>x\<bar> < 2 ^ 1024"
proof -
  have e: "exponent x \<le> - 1022" using assms by (simp add: quantum_def max_def split: if_splits)
  then have "\<bar>x\<bar> < 2 powi (exponent x + 1)" by (intro exponent_upper) simp
  also have "\<dots> \<le> 2 powi 0" using e by (intro power_int_increasing) simp_all
  also have "\<dots> \<le> 2 ^ 1024" by simp
  finally show ?thesis .
qed

lemma fl_grid_subnormal:
  assumes "x = of_int k * 2 powi (- 1074)" "quantum x = - 1074"
  shows "fl x = Num x"
proof (rule fl_integral)
  show "x / 2 powi quantum x = of_int k" using assms by simp
  show "\<bar>x\<bar> < 2 ^ 1024" using assms(2) by (rule small_of_quantum)
qed

lemma fl_grid_error:
  assumes "x = of_int k * 2 powi (- 1074)" "fl x = Num r"
  shows "\<bar>r - x\<bar> \<le> \<bar>x\<bar> / 2 ^ 53"
proof (cases "quantum x = - 1074")
  case True
  then have "fl x = Num x" using assms(1) by (intro fl_grid_subnormal)
  then show ?thesis using assms(2) by simp
next
  case False
  then show ?thesis using fl_error[OF assms(2)] by simp
qed

lemma fl_nonneg:
  assumes "0 \<le> x" "fl x = Num r"
  shows "0 \<le> r"
proof -
  have "0 \<le> x / 2 powi quantum x" using assms(1) by simp
  then have "0 \<le> round_even (x / 2 powi quantum x)" by (rule round_even_nonneg)
  then show ?thesis using fl_Num(1)[OF assms(2)] by simp
qed

lemma exponent_zero: "exponent 0 = - 1075"
  by (simp add: exponent_def doublings_numeral)

lemma round_even_abs_le:
  assumes "\<bar>y\<bar> \<le> of_int m"
  shows "\<bar>round_even y\<bar> \<le> m"
proof -
  have "y \<le> of_int m" using assms by linarith
  then have 1: "round_even y \<le> m" by (rule round_even_mono_int)
  have "of_int (- m) \<le> y" using assms by simp
  then have "- m \<le> round_even y" by (rule round_even_ge_int)
  then show ?thesis using 1 by linarith
qed

lemma round_even_abs_ge:
  assumes "of_int m \<le> \<bar>y\<bar>" "0 \<le> m"
  shows "m \<le> \<bar>round_even y\<bar>"
proof (cases "0 \<le> y")
  case True
  then have "of_int m \<le> y" using assms by simp
  then have "m \<le> round_even y" by (rule round_even_ge_int)
  then show ?thesis by linarith
next
  case False
  then have "y \<le> of_int (- m)" using assms by simp
  then have "round_even y \<le> - m" by (rule round_even_mono_int)
  then show ?thesis by linarith
qed

lemma fl_Num_exponent:
  assumes "fl x = Num r"
  shows "exponent x < 1024"
proof (rule ccontr)
  assume "\<not> exponent x < 1024"
  then have e: "exponent x = 1024" using exponent_range[of x] by linarith
  then have x0: "x \<noteq> 0" using exponent_zero by auto
  have q: "quantum x = 972" using e by (simp add: quantum_def)
  have "2 powi (exponent x) \<le> \<bar>x\<bar>" using x0 e by (intro exponent_lower) simp_all
  then have "(2::real) powi 1024 \<le> \<bar>x\<bar>" using e by simp
  moreover have "(2::real) powi 1024 = 2 powi 52 * 2 powi 972"
    using power_int_add[of "2::real" 52 972] by simp
  ultimately have "2 powi 52 * 2 powi 972 \<le> \<bar>x\<bar>" by simp
  then have "(2::real) powi 52 \<le> \<bar>x\<bar> / 2 powi 972"
    by (simp add: pos_le_divide_eq)
  then have "of_int (2 ^ 52) \<le> \<bar>x / 2 powi 972\<bar>" by simp
  then have "2 ^ 52 \<le> \<bar>round_even (x / 2 powi 972)\<bar>" by (rule round_even_abs_ge) simp
  then have "(2::real) ^ 52 \<le> \<bar>of_int (round_even (x / 2 powi 972))\<bar>"
    by (metis of_int_abs of_int_le_iff of_int_numeral of_int_power)
  then have "(2::real) ^ 52 * 2 powi 972 \<le> \<bar>of_int (round_even (x / 2 powi 972))\<bar> * 2 powi 972"
    by (intro mult_right_mono) simp_all
  moreover have "(2::real) ^ 52 * 2 powi 972 = 2 ^ 1024"
    using power_int_add[of "2::real" 52 972] by simp
  ultimately have "2 ^ 1024 \<le> \<bar>r\<bar>"
    using fl_Num(1)[OF assms] q by (simp add: abs_mult)
  then show False using fl_Num(2)[OF assms] by simp
qed

lemma fl_Num_bound:
  assumes "fl x = Num r"
  shows "\<bar>r\<bar> \<le> 2 powi (exponent x + 1)" and "quantum x \<le> exponent x + 1"
proof -
  let ?e = "exponent x" and ?q = "quantum x"
  have e: "?e < 1024" using assms by (rule fl_Num_exponent)
  have qe: "?q \<le> ?e + 1" using exponent_range[of x] by (simp add: quantum_def)
  then show "?q \<le> ?e + 1" .
  obtain m :: int where m: "(2::real) powi (?e + 1 - ?q) = of_int m"
    using pow2_nonneg_int[of "?e + 1 - ?q"] qe by auto
  have sp: "(2::real) powi (?e + 1) = 2 powi (?e + 1 - ?q) * 2 powi ?q"
    using power_int_add[of "2::real" "?e + 1 - ?q" ?q] by simp
  have "\<bar>x\<bar> < 2 powi (?e + 1)" using e by (rule exponent_upper)
  then have "\<bar>x\<bar> / 2 powi ?q \<le> 2 powi (?e + 1 - ?q)"
    unfolding sp by (simp add: pos_divide_le_eq)
  then have "\<bar>x / 2 powi ?q\<bar> \<le> of_int m" using m by simp
  then have "\<bar>round_even (x / 2 powi ?q)\<bar> \<le> m" by (rule round_even_abs_le)
  then have "\<bar>of_int (round_even (x / 2 powi ?q))\<bar> \<le> (of_int m :: real)"
    by (metis of_int_abs of_int_le_iff)
  then have "\<bar>of_int (round_even (x / 2 powi ?q))\<bar> * (2::real) powi ?q \<le> of_int m * 2 powi ?q"
    by (intro mult_right_mono) simp_all
  then show "\<bar>r\<bar> \<le> 2 powi (?e + 1)"
    using fl_Num(1)[OF assms] unfolding sp m by (simp add: abs_mult)
qed

lemma scaled_integral:
  assumes "q' \<le> q"
  shows "\<exists>m::int. (of_int K * 2 powi q) / (2::real) powi q' = of_int m"
proof -
  have "0 \<le> q - q'" using assms by simp
  from pow2_nonneg_int[OF this]
  obtain n :: int where n: "(2::real) powi (q - q') = of_int n" by blast
  have "(2::real) powi q / 2 powi q' = 2 powi (q - q')"
    by (simp add: power_int_diff)
  then have "(of_int K * 2 powi q) / (2::real) powi q' = of_int K * of_int n"
    using n by (metis times_divide_eq_right)
  then have "(of_int K * 2 powi q) / (2::real) powi q' = of_int (K * n)" by simp
  then show ?thesis by blast
qed

lemma pow2_integral:
  assumes "q' \<le> e" "\<bar>r\<bar> = 2 powi e"
  shows "\<exists>m::int. r / (2::real) powi q' = of_int m"
proof -
  have "0 \<le> e - q'" using assms by simp
  from pow2_nonneg_int[OF this]
  obtain n :: int where n: "(2::real) powi (e - q') = of_int n" by blast
  have d: "(2::real) powi e / 2 powi q' = of_int n"
    using n by (simp add: power_int_diff)
  show ?thesis
  proof (cases "0 \<le> r")
    case True
    then have "r / 2 powi q' = of_int n" using assms(2) d by simp
    then show ?thesis by blast
  next
    case False
    then have "r = - (2 powi e)" using assms(2) by simp
    then have "r / 2 powi q' = of_int (- n)" using d by simp
    then show ?thesis by blast
  qed
qed

lemma fl_idem:
  assumes "fl x = Num r"
  shows "fl r = Num r"
proof (cases "r = 0")
  case True
  then show ?thesis by (simp add: fl_zero)
next
  case False
  let ?e = "exponent x" and ?q = "quantum x"
  let ?e' = "exponent r" and ?q' = "quantum r"
  let ?K = "round_even (x / 2 powi ?q)"
  have r: "r = of_int ?K * 2 powi ?q" and small: "\<bar>r\<bar> < 2 ^ 1024"
    using fl_Num[OF assms] by simp_all
  have ub: "\<bar>r\<bar> \<le> 2 powi (?e + 1)" and qe: "?q \<le> ?e + 1"
    using fl_Num_bound[OF assms] by simp_all
  have below: "\<exists>m::int. r / 2 powi ?q' = of_int m" if "?q' \<le> ?q"
    using scaled_integral[OF that, of ?K] r by simp
  have "\<exists>m::int. r / 2 powi ?q' = of_int m"
  proof (cases "?e' \<le> ?e")
    case True
    then have "?q' \<le> ?q" by (simp add: quantum_def)
    then show ?thesis by (rule below)
  next
    case gt: False
    then have low: "- 1075 < ?e'" using exponent_range[of x] by linarith
    have lb: "2 powi ?e' \<le> \<bar>r\<bar>" using False low by (rule exponent_lower)
    have "?e' \<le> ?e + 1"
    proof (rule ccontr)
      assume "\<not> ?e' \<le> ?e + 1"
      then have "(2::real) powi (?e + 1) < 2 powi ?e'"
        by (intro power_int_strict_increasing) simp_all
      then show False using lb ub by linarith
    qed
    then have e': "?e' = ?e + 1" using gt by linarith
    then have abs_r: "\<bar>r\<bar> = 2 powi ?e'" using lb ub by simp
    have q'e': "?q' \<le> ?e'" using low by (simp add: quantum_def)
    then show ?thesis using abs_r by (rule pow2_integral)
  qed
  then obtain m :: int where "r / 2 powi ?q' = of_int m" by blast
  then show ?thesis using small by (rule fl_integral)
qed

section \<open>Sums of doubles\<close>

lemma rnd_idem: "rnd (rnd v) = rnd v"
proof (cases v)
  case (Num x)
  show ?thesis
  proof (cases "fl x")
    case (Num r)
    then show ?thesis using fl_idem[OF Num] \<open>v = Num x\<close> by simp
  qed (simp_all add: \<open>v = Num x\<close>)
qed simp_all

lemma rnd_not_finite: "\<not> js_finite v \<Longrightarrow> rnd v = v"
  by (cases v) simp_all

lemma rnd_isNaN: "js_isNaN (rnd v) \<longleftrightarrow> js_isNaN v"
  by (cases v) (auto simp: fl_def Let_def)

lemma d_add_fixed: "rnd (d_add a b) = d_add a b"
  by (simp add: d_add_def rnd_idem)

lemma d_add_zero_right: "rnd s = s \<Longrightarrow> d_add s (Num 0) = s"
  by (simp add: d_add_def js_add_zero_right)

lemma d_add_not_finite: "\<not> js_finite s \<Longrightarrow> \<not> js_finite (d_add s x)"
  using js_add_not_finite[of s x] by (simp add: d_add_def rnd_not_finite)

lemma foldl_d_add_not_finite: "\<not> js_finite s \<Longrightarrow> \<not> js_finite (foldl d_add s xs)"
  by (induction xs arbitrary: s) (simp_all add: d_add_not_finite)

lemma foldl_d_add_drop_nan:
  "rnd s = s \<Longrightarrow>
   foldl d_add s (map nan0 vs) = foldl d_add s (filter (\<lambda>v. \<not> js_isNaN v) vs)"
proof (induction vs arbitrary: s)
  case Nil
  show ?case by simp
next
  case (Cons v vs)
  show ?case
  proof (cases "js_isNaN v")
    case True
    then show ?thesis using Cons by (simp add: nan0_def d_add_zero_right)
  next
    case False
    then show ?thesis using Cons.IH[of "d_add s v"] by (simp add: nan0_def d_add_fixed)
  qed
qed

lemma total_as_sum_d:
  "weights_totalValue_d b p = d_sum (map (\<lambda>t. nan0 (token_value_d b p t)) (keys b))"
  by (simp add: weights_totalValue_d_def d_sum_def foldl_map nan0_def Let_def)

lemma total_skips_nan_d:
  "weights_totalValue_d b p =
     d_sum (filter (\<lambda>v. \<not> js_isNaN v) (map (token_value_d b p) (keys b)))"
  using foldl_d_add_drop_nan[of "Num 0" "map (token_value_d b p) (keys b)"]
  by (simp add: total_as_sum_d d_sum_def o_def fl_zero)

lemma no_nan_weight_d: "tw \<in> set (calculateWeights_d b p) \<Longrightarrow> \<not> js_isNaN (snd tw)"
  by (auto simp: js_isNaN_iff calculateWeights_d_def Let_def js_or0_def js_falsy_def
      split: if_splits)

lemma zero_total_zero_weights_d:
  "weights_totalValue_d b p = Num 0 \<Longrightarrow> tw \<in> set (calculateWeights_d b p) \<Longrightarrow> snd tw = Num 0"
  by (auto simp: calculateWeights_d_def)

lemma grid_add:
  assumes "\<exists>k::int. a = of_int k * g" "\<exists>k::int. b = of_int k * g"
  shows "\<exists>k::int. a + b = of_int k * (g::real)"
proof -
  obtain k l :: int where "a = of_int k * g" "b = of_int l * g" using assms by blast
  then have "a + b = of_int (k + l) * g" by (simp add: algebra_simps)
  then show ?thesis by blast
qed

lemma d_add_Num: "d_add (Num a) (Num b) = fl (a + b)"
  by (simp add: d_add_def)

lemma fl_add_step:
  assumes "0 \<le> y" "\<exists>k::int. y = of_int k * 2 powi (- 1074)" "fl y = Num r"
  shows "0 \<le> r" and "\<exists>k::int. r = of_int k * 2 powi (- 1074)"
    and "y * (1 - 1 / 2 ^ 53) \<le> r" and "r \<le> y * (1 + 1 / 2 ^ 53)"
proof -
  show "0 \<le> r" using assms(1,3) by (rule fl_nonneg)
  show "\<exists>k::int. r = of_int k * 2 powi (- 1074)" using assms(3) by (rule fl_on_grid)
  obtain k :: int where "y = of_int k * 2 powi (- 1074)" using assms(2) by blast
  then have "\<bar>r - y\<bar> \<le> \<bar>y\<bar> / 2 ^ 53" using assms(3) by (rule fl_grid_error)
  then have e: "\<bar>r - y\<bar> \<le> y / 2 ^ 53" using assms(1) by simp
  have e1: "r - y \<le> y / 2 ^ 53" and e2: "y - r \<le> y / 2 ^ 53"
    using e by linarith+
  have "y * (1 - 1 / 2 ^ 53) = y - y / 2 ^ 53" by (simp add: algebra_simps)
  then show "y * (1 - 1 / 2 ^ 53) \<le> r" using e2 by linarith
  have "y * (1 + 1 / 2 ^ 53) = y + y / 2 ^ 53" by (simp add: algebra_simps)
  then show "r \<le> y * (1 + 1 / 2 ^ 53)" using e1 by linarith
qed

lemma foldl_d_add_bounds:
  assumes "\<forall>x \<in> set xs. 0 \<le> x \<and> (\<exists>k::int. x = of_int k * 2 powi (- 1074))"
    and "0 \<le> a" and "\<exists>k::int. a = of_int k * 2 powi (- 1074)"
    and "foldl d_add (Num a) (map Num xs) = Num T"
  shows "(a + sum_list xs) * (1 - 1 / 2 ^ 53) ^ length xs \<le> T
       \<and> T \<le> (a + sum_list xs) * (1 + 1 / 2 ^ 53) ^ length xs"
  using assms
proof (induction xs arbitrary: a)
  case Nil
  then show ?case by simp
next
  case (Cons x xs)
  let ?lo = "1 - 1 / (2::real) ^ 53" and ?hi = "1 + 1 / (2::real) ^ 53"
  have x: "0 \<le> x" "\<exists>k::int. x = of_int k * 2 powi (- 1074)" using Cons.prems(1) by simp_all
  have rest: "\<forall>x \<in> set xs. 0 \<le> x \<and> (\<exists>k::int. x = of_int k * 2 powi (- 1074))"
    using Cons.prems(1) by simp
  have S: "0 \<le> sum_list xs" using rest by (intro sum_list_nonneg) simp
  have y0: "0 \<le> a + x" using x(1) Cons.prems(2) by simp
  have yg: "\<exists>k::int. a + x = of_int k * 2 powi (- 1074)"
    using Cons.prems(3) x(2) by (rule grid_add)
  have fold: "foldl d_add (fl (a + x)) (map Num xs) = Num T"
    using Cons.prems(4) by (simp add: d_add_Num)
  obtain r where r: "fl (a + x) = Num r"
  proof (cases "fl (a + x)")
    case (Num r)
    then show ?thesis using that by simp
  next
    case PInf
    then show ?thesis using fold foldl_d_add_not_finite[of PInf "map Num xs"] by simp
  next
    case NInf
    then show ?thesis using fold foldl_d_add_not_finite[of NInf "map Num xs"] by simp
  next
    case NaN
    then show ?thesis using fold foldl_d_add_not_finite[of NaN "map Num xs"] by simp
  qed
  note st = fl_add_step[OF y0 yg r]
  have IH: "(r + sum_list xs) * ?lo ^ length xs \<le> T \<and> T \<le> (r + sum_list xs) * ?hi ^ length xs"
    using rest st(1,2) fold unfolding r by (rule Cons.IH)
  have lo01: "0 \<le> ?lo" "?lo \<le> 1" by simp_all
  have hi1: "1 \<le> ?hi" by simp
  have "(a + x + sum_list xs) * ?lo \<le> r + sum_list xs"
  proof -
    have "sum_list xs * ?lo \<le> sum_list xs" using S lo01(2) by (simp add: mult_left_le)
    then show ?thesis using st(3) by (simp add: algebra_simps)
  qed
  then have "(a + x + sum_list xs) * ?lo * ?lo ^ length xs \<le> (r + sum_list xs) * ?lo ^ length xs"
    using lo01(1) by (intro mult_right_mono) simp_all
  then have 1: "(a + sum_list (x # xs)) * ?lo ^ length (x # xs) \<le> T"
    using IH by (simp add: algebra_simps)
  have "r + sum_list xs \<le> (a + x + sum_list xs) * ?hi"
  proof -
    have "sum_list xs \<le> sum_list xs * ?hi" using S hi1 by (simp add: mult_le_cancel_left1)
    then show ?thesis using st(4) by (simp add: algebra_simps)
  qed
  then have "(r + sum_list xs) * ?hi ^ length xs \<le> (a + x + sum_list xs) * ?hi * ?hi ^ length xs"
    by (intro mult_right_mono) simp_all
  then have 2: "T \<le> (a + sum_list (x # xs)) * ?hi ^ length (x # xs)"
    using IH by (simp add: algebra_simps)
  show ?case using 1 2 by blast
qed

lemma foldl_d_add_Num_finite:
  "foldl d_add (Num a) xs = Num T \<Longrightarrow> list_all js_finite xs"
proof (induction xs arbitrary: a)
  case Nil
  show ?case by simp
next
  case (Cons x xs)
  have f: "js_finite (d_add (Num a) x)"
    using Cons.prems foldl_d_add_not_finite[of "d_add (Num a) x" xs] by auto
  then have fx: "js_finite x"
    using js_add_not_finite[of x "Num a"] by (cases x) (auto simp: d_add_def)
  obtain r where "d_add (Num a) x = Num r" using f by (auto simp: js_finite_iff)
  then have "list_all js_finite xs" using Cons.prems Cons.IH[of r] by simp
  then show ?case using fx by simp
qed

lemma fl_finite:
  assumes "\<bar>y\<bar> \<le> 2"
  shows "\<exists>w. fl y = Num w"
proof -
  let ?q = "quantum y"
  let ?r = "of_int (round_even (y / 2 powi ?q)) * (2::real) powi ?q"
  have "exponent y \<le> 1"
  proof (rule ccontr)
    assume "\<not> exponent y \<le> 1"
    then have e: "2 \<le> exponent y" by simp
    then have "y \<noteq> 0" using exponent_zero by auto
    then have "2 powi (exponent y) \<le> \<bar>y\<bar>" using e by (intro exponent_lower) simp_all
    moreover have "(2::real) powi 2 \<le> 2 powi (exponent y)"
      using e by (intro power_int_increasing) simp_all
    ultimately show False using assms by simp
  qed
  then have "?q \<le> 0" by (simp add: quantum_def)
  then have "(2::real) powi ?q \<le> 2 powi 0" by (intro power_int_increasing) simp_all
  then have q1: "(2::real) powi ?q \<le> 1" by simp
  have p: "(0::real) < 2 powi ?q" by simp
  have "?r - y = (of_int (round_even (y / 2 powi ?q)) - y / 2 powi ?q) * 2 powi ?q"
    using p by (simp add: field_simps)
  then have "\<bar>?r - y\<bar> = \<bar>of_int (round_even (y / 2 powi ?q)) - y / 2 powi ?q\<bar> * 2 powi ?q"
    by (simp add: abs_mult)
  also have "\<dots> \<le> (1 / 2) * 1"
    using round_even_error[of "y / 2 powi ?q"] q1 p by (intro mult_mono) simp_all
  finally have "\<bar>?r\<bar> \<le> 3" using assms by linarith
  then have "\<not> 2 ^ 1024 \<le> \<bar>?r\<bar>" by simp
  then show ?thesis by (simp add: fl_def Let_def)
qed

lemma weight_d_value:
  assumes "nan0 v = Num x" "V \<noteq> 0" "fl (x / V) = Num w"
  shows "js_or0 (d_div v (Num V)) = Num w"
proof (cases v)
  case (Num y)
  then have "y = x" using assms(1) by (simp add: nan0_def)
  then show ?thesis using Num assms(2,3) by (simp add: d_div_def js_or0_def js_falsy_def)
next
  case NaN
  then have "x = 0" using assms(1) by (simp add: nan0_def)
  then have "w = 0" using assms(3) by (simp add: fl_zero)
  then show ?thesis using NaN by (simp add: d_div_def js_or0_def js_falsy_def)
qed (use assms(1) in \<open>simp_all add: nan0_def\<close>)

lemma sum_list_error:
  fixes f g :: "'a \<Rightarrow> real"
  assumes "\<forall>t \<in> set ks. \<bar>f t - g t\<bar> \<le> g t * u + h"
  shows "\<bar>sum_list (map f ks) - sum_list (map g ks)\<bar> \<le> sum_list (map g ks) * u + real (length ks) * h"
  using assms
proof (induction ks)
  case Nil
  show ?case by simp
next
  case (Cons t ks)
  have "\<bar>f t - g t\<bar> \<le> g t * u + h" using Cons.prems by simp
  moreover have "\<bar>sum_list (map f ks) - sum_list (map g ks)\<bar>
      \<le> sum_list (map g ks) * u + real (length ks) * h"
    using Cons by simp
  ultimately show ?case by (simp add: algebra_simps)
qed

lemma round_off_powers:
  assumes "n \<le> 1000000"
  shows "1 - 12 / 10 ^ 11 \<le> (1 - 1 / 2 ^ 53 :: real) ^ n"
    and "(1 + 1 / 2 ^ 53 :: real) ^ n * (1 - 1 / 2 ^ 53) ^ n \<le> 1"
proof -
  have "1 + real n * (- (1 / 2 ^ 53)) \<le> (1 + (- (1 / 2 ^ 53)) :: real) ^ n"
    by (rule Bernoulli_inequality) simp
  moreover have "real n * (1 / 2 ^ 53) \<le> 1000000 * (1 / 2 ^ 53)"
    using assms by (intro mult_right_mono) simp_all
  moreover have "(1000000 :: real) * (1 / 2 ^ 53) \<le> 12 / 10 ^ 11" by simp
  ultimately show "1 - 12 / 10 ^ 11 \<le> (1 - 1 / 2 ^ 53 :: real) ^ n" by simp
  have "(1 + 1 / 2 ^ 53 :: real) ^ n * (1 - 1 / 2 ^ 53) ^ n
      = ((1 + 1 / 2 ^ 53) * (1 - 1 / 2 ^ 53)) ^ n"
    by (rule power_mult_distrib[symmetric])
  also have "\<dots> \<le> 1" by (intro power_le_one) simp_all
  finally show "(1 + 1 / 2 ^ 53 :: real) ^ n * (1 - 1 / 2 ^ 53) ^ n \<le> 1" .
qed

lemma tiny_quantum: "(2::real) powi (- 1075) \<le> 1 / 10 ^ 16"
proof -
  have "(2::real) powi (- 1075) \<le> 2 powi (- 54)"
    by (intro power_int_increasing) simp_all
  also have "\<dots> \<le> 1 / 10 ^ 16" by (simp add: power_int_minus field_simps)
  finally show ?thesis .
qed

lemma tolerance:
  fixes q L s :: real
  assumes L: "1 - 12 / 10 ^ 11 \<le> L" and HL: "H * L \<le> 1"
    and lo: "q * L \<le> 1" and hi: "1 \<le> q * H" and q: "0 \<le> q"
    and s: "\<bar>s - q\<bar> \<le> q * (1 / 2 ^ 53) + 1 / 10 ^ 10"
  shows "\<bar>s - 1\<bar> \<le> 5 / 10 ^ 10"
proof -
  have L0: "0 < L" using L by simp
  have "q * L \<le> 1" by (rule lo)
  then have "q \<le> 1 / L" using L0 by (simp add: pos_le_divide_eq)
  also have "\<dots> \<le> 1 / (1 - 12 / 10 ^ 11)" using L by (intro divide_left_mono) simp_all
  finally have qu: "q \<le> 1 / (1 - 12 / 10 ^ 11)" .
  have H0: "0 < H"
  proof (rule ccontr)
    assume "\<not> 0 < H"
    then have "q * H \<le> 0" using q by (simp add: mult_nonneg_nonpos)
    then show False using hi by simp
  qed
  have "H \<le> 1 / L" using HL L0 by (simp add: pos_le_divide_eq)
  then have "q * H \<le> q * (1 / L)" using q by (intro mult_left_mono)
  then have "1 \<le> q / L" using hi by simp
  then have "L \<le> q" using L0 by (simp add: pos_le_divide_eq)
  then have ql: "1 - 12 / 10 ^ 11 \<le> q" using L by linarith
  have "s \<le> q + q * (1 / 2 ^ 53) + 1 / 10 ^ 10" using s by linarith
  also have "\<dots> = q * (1 + 1 / 2 ^ 53) + 1 / 10 ^ 10" by (simp add: algebra_simps)
  also have "\<dots> \<le> 1 / (1 - 12 / 10 ^ 11) * (1 + 1 / 2 ^ 53) + 1 / 10 ^ 10"
    using qu by (intro add_right_mono mult_right_mono) simp_all
  also have "\<dots> \<le> 1 + 5 / 10 ^ 10" by simp
  finally have up: "s \<le> 1 + 5 / 10 ^ 10" .
  have "(1 - 12 / 10 ^ 11) * (1 - 1 / 2 ^ 53) - 1 / 10 ^ 10 \<le> q * (1 - 1 / 2 ^ 53) - 1 / 10 ^ 10"
    using ql by (intro diff_right_mono mult_right_mono) simp_all
  also have "\<dots> = q - q * (1 / 2 ^ 53) - 1 / 10 ^ 10" by (simp add: algebra_simps)
  also have "\<dots> \<le> s" using s by linarith
  finally have "(1 - 12 / 10 ^ 11) * (1 - 1 / 2 ^ 53) - 1 / 10 ^ 10 \<le> s" .
  moreover have "(1 :: real) - 5 / 10 ^ 10 \<le> (1 - 12 / 10 ^ 11) * (1 - 1 / 2 ^ 53) - 1 / 10 ^ 10"
    by simp
  ultimately have "1 - 5 / 10 ^ 10 \<le> s" by linarith
  then show ?thesis using up by linarith
qed

lemma token_value_d_fixed: "rnd (token_value_d b p t) = token_value_d b p t"
  by (simp add: token_value_d_def d_mul_def rnd_idem)

lemma contribution_d:
  assumes "js_finite (nan0 (token_value_d b p t))"
    and "js_isNaN (token_value_d b p t) \<or> js_ge (token_value_d b p t) (Num 0)"
  obtains x where "nan0 (token_value_d b p t) = Num x" "0 \<le> x"
    "\<exists>k::int. x = of_int k * 2 powi (- 1074)"
proof (cases "token_value_d b p t")
  case (Num x)
  then have "fl x = Num x" using token_value_d_fixed[of b p t] by simp
  then have "\<exists>k::int. x = of_int k * 2 powi (- 1074)" by (rule fl_on_grid)
  moreover have "0 \<le> x" using assms(2) Num by (simp add: js_ge_def)
  ultimately show ?thesis using that Num by (simp add: nan0_def)
next
  case NaN
  have "\<exists>k::int. (0::real) = of_int k * 2 powi (- 1074)" by (rule exI[of _ 0]) simp
  then show ?thesis using that[of 0] NaN by (simp add: nan0_def)
qed (use assms(1) in \<open>simp_all add: nan0_def\<close>)

lemma foldl_d_add_exists:
  assumes "\<forall>x \<in> set xs. 0 \<le> x \<and> (\<exists>k::int. x = of_int k * 2 powi (- 1074))"
    and "0 \<le> a" and "\<exists>k::int. a = of_int k * 2 powi (- 1074)"
    and "(a + sum_list xs) * (1 + 1 / 2 ^ 53) ^ length xs \<le> 2"
  shows "\<exists>T. foldl d_add (Num a) (map Num xs) = Num T"
  using assms
proof (induction xs arbitrary: a)
  case Nil
  show ?case by simp
next
  case (Cons x xs)
  let ?hi = "1 + 1 / (2::real) ^ 53"
  have x: "0 \<le> x" "\<exists>k::int. x = of_int k * 2 powi (- 1074)" using Cons.prems(1) by simp_all
  have rest: "\<forall>x \<in> set xs. 0 \<le> x \<and> (\<exists>k::int. x = of_int k * 2 powi (- 1074))"
    using Cons.prems(1) by simp
  have S: "0 \<le> sum_list xs" using rest by (intro sum_list_nonneg) simp
  have y0: "0 \<le> a + x" using x(1) Cons.prems(2) by simp
  have yg: "\<exists>k::int. a + x = of_int k * 2 powi (- 1074)"
    using Cons.prems(3) x(2) by (rule grid_add)
  have hn: "1 \<le> ?hi ^ length xs" by (intro one_le_power) simp
  have hh: "1 \<le> ?hi * ?hi ^ length xs"
    using one_le_power[of ?hi "Suc (length xs)"] by simp
  have tot: "(a + x + sum_list xs) * (?hi * ?hi ^ length xs) \<le> 2"
    using Cons.prems(4) by (simp add: algebra_simps)
  have "a + x \<le> (a + x + sum_list xs) * 1" using S by simp
  also have "\<dots> \<le> (a + x + sum_list xs) * (?hi * ?hi ^ length xs)"
    using hh y0 S by (intro mult_left_mono) simp_all
  finally have "\<bar>a + x\<bar> \<le> 2" using tot y0 by simp
  then obtain r where r: "fl (a + x) = Num r" using fl_finite by blast
  note st = fl_add_step[OF y0 yg r]
  have "r + sum_list xs \<le> (a + x + sum_list xs) * ?hi"
  proof -
    have "sum_list xs \<le> sum_list xs * ?hi" using S by (simp add: mult_le_cancel_left1)
    then show ?thesis using st(4) by (simp add: algebra_simps)
  qed
  then have "(r + sum_list xs) * ?hi ^ length xs \<le> (a + x + sum_list xs) * ?hi * ?hi ^ length xs"
    by (intro mult_right_mono) simp_all
  then have "(r + sum_list xs) * ?hi ^ length xs \<le> 2" using tot by (simp add: algebra_simps)
  with rest st(1,2) have "\<exists>T. foldl d_add (Num r) (map Num xs) = Num T" by (rule Cons.IH)
  then show ?case using r by (simp add: d_add_Num)
qed

lemma weights_sum_d:
  assumes tot: "weights_totalValue_d b p = Num V" and V: "0 < V"
    and nn: "\<forall>t \<in> set (keys b). js_isNaN (token_value_d b p t) \<or> js_ge (token_value_d b p t) (Num 0)"
    and n: "length (keys b) \<le> 1000000"
  shows "list_all (\<lambda>tw. js_finite (snd tw)) (calculateWeights_d b p)"
    and "\<bar>sum_list (map (\<lambda>tw. the_real (snd tw)) (calculateWeights_d b p)) - 1\<bar> \<le> 5 / 10 ^ 10"
    and "\<exists>s. d_sum (map snd (calculateWeights_d b p)) = Num s \<and> \<bar>s - 1\<bar> \<le> 1 / 10 ^ 9"
proof -
  let ?ks = "keys b"
  let ?c = "\<lambda>t. nan0 (token_value_d b p t)"
  let ?x = "\<lambda>t. the_real (?c t)"
  let ?w = "\<lambda>t. the_real (fl (?x t / V))"
  let ?n = "length ?ks"
  let ?L = "(1 - 1 / 2 ^ 53 :: real) ^ ?n" and ?H = "(1 + 1 / 2 ^ 53 :: real) ^ ?n"
  let ?S = "sum_list (map ?x ?ks)"
  have fold: "foldl d_add (Num 0) (map ?c ?ks) = Num V"
    using tot by (simp add: total_as_sum_d d_sum_def)
  then have fin: "list_all js_finite (map ?c ?ks)" by (rule foldl_d_add_Num_finite)
  have c: "?c t = Num (?x t) \<and> 0 \<le> ?x t \<and> (\<exists>k::int. ?x t = of_int k * 2 powi (- 1074))"
    if "t \<in> set ?ks" for t
  proof -
    have "js_finite (?c t)" using fin that by (simp add: list_all_iff)
    moreover have "js_isNaN (token_value_d b p t) \<or> js_ge (token_value_d b p t) (Num 0)"
      using nn that by simp
    ultimately obtain x where "?c t = Num x" "0 \<le> x" "\<exists>k::int. x = of_int k * 2 powi (- 1074)"
      by (rule contribution_d)
    then show ?thesis by simp
  qed
  have "map ?c ?ks = map Num (map ?x ?ks)" using c by simp
  then have fold': "foldl d_add (Num 0) (map Num (map ?x ?ks)) = Num V"
    using fold by (simp only:)
  have bounds: "(0 + ?S) * ?L \<le> V \<and> V \<le> (0 + ?S) * ?H"
  proof -
    have "\<forall>x \<in> set (map ?x ?ks). 0 \<le> x \<and> (\<exists>k::int. x = of_int k * 2 powi (- 1074))"
      using c by auto
    moreover have "\<exists>k::int. (0::real) = of_int k * 2 powi (- 1074)" by (rule exI[of _ 0]) simp
    ultimately show ?thesis
      using foldl_d_add_bounds[of "map ?x ?ks" 0 V] fold' by simp
  qed
  have L: "1 - 12 / 10 ^ 11 \<le> ?L" and HL: "?H * ?L \<le> 1"
    using round_off_powers[OF n] by simp_all
  have L0: "0 < ?L" using L by simp
  have S0: "0 \<le> ?S" using c by (intro sum_list_nonneg) auto
  let ?q = "?S / V"
  have q0: "0 \<le> ?q" using S0 V by simp
  have qL: "?q * ?L \<le> 1" using bounds V by (simp add: field_simps)
  have qH: "1 \<le> ?q * ?H" using bounds V by (simp add: field_simps)
  have q2: "?q \<le> 2"
  proof -
    have "?q \<le> 1 / ?L" using qL L0 by (simp add: pos_le_divide_eq)
    also have "\<dots> \<le> 1 / (1 - 12 / 10 ^ 11)" using L by (intro divide_left_mono) simp_all
    also have "\<dots> \<le> 2" by simp
    finally show ?thesis .
  qed
  have w: "fl (?x t / V) = Num (?w t)
         \<and> \<bar>?w t - ?x t / V\<bar> \<le> ?x t / V * (1 / 2 ^ 53) + 1 / 10 ^ 16"
    if "t \<in> set ?ks" for t
  proof -
    have x0: "0 \<le> ?x t" using c[OF that] by simp
    have "?x t \<le> ?S" using that c by (intro member_le_sum_list) auto
    then have "?x t / V \<le> ?q" using V by (simp add: divide_right_mono)
    then have "\<bar>?x t / V\<bar> \<le> 2" using q2 x0 V by simp
    then obtain r where r: "fl (?x t / V) = Num r" using fl_finite by blast
    have "\<bar>r - ?x t / V\<bar> \<le> \<bar>?x t / V\<bar> / 2 ^ 53 \<or> \<bar>r - ?x t / V\<bar> \<le> 2 powi (- 1075)"
      using fl_error[OF r] by blast
    moreover have "\<bar>?x t / V\<bar> = ?x t / V" using x0 V by simp
    ultimately have "\<bar>r - ?x t / V\<bar> \<le> ?x t / V * (1 / 2 ^ 53) + 1 / 10 ^ 16"
      using tiny_quantum x0 V by (auto simp: field_simps intro: order_trans add_increasing add_increasing2)
    then show ?thesis using r by simp
  qed
  have V0: "V \<noteq> 0" "Num V \<noteq> Num 0" using V by simp_all
  have weight: "js_or0 (d_div (token_value_d b p t) (Num V)) = Num (?w t)" if "t \<in> set ?ks" for t
    using c[OF that] V0(1) w[OF that] by (intro weight_d_value) simp_all
  have cw: "calculateWeights_d b p = map (\<lambda>t. (t, Num (?w t))) ?ks"
    using tot V0(2) weight by (simp add: calculateWeights_d_def)
  show "list_all (\<lambda>tw. js_finite (snd tw)) (calculateWeights_d b p)"
    unfolding cw by (simp add: list_all_iff)
  have sw: "sum_list (map (\<lambda>tw. the_real (snd tw)) (calculateWeights_d b p)) = sum_list (map ?w ?ks)"
    unfolding cw by (simp add: o_def)
  have "\<bar>sum_list (map ?w ?ks) - sum_list (map (\<lambda>t. ?x t / V) ?ks)\<bar>
      \<le> sum_list (map (\<lambda>t. ?x t / V) ?ks) * (1 / 2 ^ 53) + real ?n * (1 / 10 ^ 16)"
    using w by (intro sum_list_error) simp
  then have "\<bar>sum_list (map ?w ?ks) - ?q\<bar> \<le> ?q * (1 / 2 ^ 53) + real ?n * (1 / 10 ^ 16)"
    by (simp only: sum_list_div)
  moreover have "real ?n * (1 / 10 ^ 16) \<le> 1000000 * (1 / 10 ^ 16)"
    using n by (intro mult_right_mono) simp_all
  ultimately have "\<bar>sum_list (map ?w ?ks) - ?q\<bar> \<le> ?q * (1 / 2 ^ 53) + 1 / 10 ^ 10"
    by simp
  with L HL qL qH q0 have sum1: "\<bar>sum_list (map ?w ?ks) - 1\<bar> \<le> 5 / 10 ^ 10" by (rule tolerance)
  then show "\<bar>sum_list (map (\<lambda>tw. the_real (snd tw)) (calculateWeights_d b p)) - 1\<bar> \<le> 5 / 10 ^ 10"
    by (simp only: sw)
  let ?W = "sum_list (map ?w ?ks)"
  have wg: "\<forall>x \<in> set (map ?w ?ks). 0 \<le> x \<and> (\<exists>k::int. x = of_int k * 2 powi (- 1074))"
  proof
    fix x assume "x \<in> set (map ?w ?ks)"
    then obtain t where t: "t \<in> set ?ks" "x = ?w t" by auto
    have f: "fl (?x t / V) = Num x" using w[OF t(1)] t(2) by simp
    have "0 \<le> ?x t / V" using c[OF t(1)] V by simp
    then have "0 \<le> x" using f by (rule fl_nonneg)
    moreover have "\<exists>k::int. x = of_int k * 2 powi (- 1074)" using f by (rule fl_on_grid)
    ultimately show "0 \<le> x \<and> (\<exists>k::int. x = of_int k * 2 powi (- 1074))" by simp
  qed
  have g0: "\<exists>k::int. (0::real) = of_int k * 2 powi (- 1074)" by (rule exI[of _ 0]) simp
  have W0: "0 \<le> ?W" using wg by (intro sum_list_nonneg) blast
  have H0: "0 < ?H" by simp
  have HleL: "?H \<le> 1 / ?L" using HL L0 by (simp add: pos_le_divide_eq)
  also have "\<dots> \<le> 1 / (1 - 12 / 10 ^ 11)" using L by (intro divide_left_mono) simp_all
  finally have Hu: "?H \<le> 1 / (1 - 12 / 10 ^ 11)" .
  have Wu: "?W \<le> 1 + 5 / 10 ^ 10" and Wl: "1 - 5 / 10 ^ 10 \<le> ?W" using sum1 by linarith+
  have WH: "?W * ?H \<le> (1 + 5 / 10 ^ 10) * (1 / (1 - 12 / 10 ^ 11))"
    using Wu Hu W0 by (intro mult_mono) simp_all
  also have "\<dots> \<le> 1 + 1 / 10 ^ 9" by simp
  finally have WH1: "?W * ?H \<le> 1 + 1 / 10 ^ 9" .
  then have "(0 + ?W) * ?H \<le> 2" by simp
  then have "(0 + sum_list (map ?w ?ks)) * (1 + 1 / 2 ^ 53) ^ length (map ?w ?ks) \<le> 2" by simp
  with wg order_refl g0 have "\<exists>T. foldl d_add (Num 0) (map Num (map ?w ?ks)) = Num T"
    by (rule foldl_d_add_exists)
  then obtain s where s: "foldl d_add (Num 0) (map Num (map ?w ?ks)) = Num s" by blast
  have "(0 + ?W) * (1 - 1 / 2 ^ 53) ^ length (map ?w ?ks) \<le> s
      \<and> s \<le> (0 + ?W) * (1 + 1 / 2 ^ 53) ^ length (map ?w ?ks)"
    using wg order_refl g0 s by (rule foldl_d_add_bounds)
  then have sl: "?W * ?L \<le> s" and su: "s \<le> ?W * ?H" by simp_all
  have "(1 - 5 / 10 ^ 10) * (1 - 12 / 10 ^ 11) \<le> ?W * ?L"
    using Wl L by (intro mult_mono) simp_all
  moreover have "(1 :: real) - 1 / 10 ^ 9 \<le> (1 - 5 / 10 ^ 10) * (1 - 12 / 10 ^ 11)" by simp
  ultimately have "1 - 1 / 10 ^ 9 \<le> s" using sl by linarith
  then have "\<bar>s - 1\<bar> \<le> 1 / 10 ^ 9" using su WH1 by linarith
  moreover have "d_sum (map snd (calculateWeights_d b p)) = Num s"
    unfolding cw d_sum_def using s by (simp add: o_def)
  ultimately show "\<exists>s. d_sum (map snd (calculateWeights_d b p)) = Num s \<and> \<bar>s - 1\<bar> \<le> 1 / 10 ^ 9"
    by blast
qed

section \<open>Properties of the weight calculator\<close>

text \<open>Evaluation of a rounding on a numeral.\<close>

lemmas fl_eval = fl_def quantum_def exponent_def halvings_numeral doublings_numeral
  round_even_def Let_def

text \<open>
  Claim C8, as amended, on doubles.  The weight calculator counts a product that is NaN
  as zero: its total is the sum of the products that are not NaN.  No weight is NaN.  If
  the total is a positive finite number, no product is negative and there are at most
  \<open>10 ^ 6\<close> tokens, the weights sum to 1 within \<open>10 ^ - 9\<close>, both as an exact sum
  of the computed weights and when they are added up as doubles in the order of the
  keys.  If the total is zero every weight is zero.
\<close>

theorem calculateWeights_d_nan_as_zero_and_sum_one:
  "weights_totalValue_d balances prices =
     d_sum (filter (\<lambda>v. \<not> js_isNaN v) (map (token_value_d balances prices) (keys balances)))
   \<and> (\<forall>tw \<in> set (calculateWeights_d balances prices). \<not> js_isNaN (snd tw))
   \<and> (\<forall>V. weights_totalValue_d balances prices = Num V \<and> 0 < V
          \<and> (\<forall>t \<in> set (keys balances).
                js_isNaN (token_value_d balances prices t)
                \<or> js_ge (token_value_d balances prices t) (Num 0))
          \<and> length (keys balances) \<le> 1000000 \<longrightarrow>
          \<bar>sum_list (map (\<lambda>tw. the_real (snd tw)) (calculateWeights_d balances prices)) - 1\<bar>
            \<le> 1 / 10 ^ 9
          \<and> (\<exists>s. d_sum (map snd (calculateWeights_d balances prices)) = Num s
                 \<and> \<bar>s - 1\<bar> \<le> 1 / 10 ^ 9))
   \<and> (weights_totalValue_d balances prices = Num 0 \<longrightarrow>
          (\<forall>tw \<in> set (calculateWeights_d balances prices). snd tw = Num 0))"
proof (intro conjI ballI allI impI)
  show "weights_totalValue_d balances prices =
      d_sum (filter (\<lambda>v. \<not> js_isNaN v) (map (token_value_d balances prices) (keys balances)))"
    by (rule total_skips_nan_d)
next
  fix tw assume "tw \<in> set (calculateWeights_d balances prices)"
  then show "\<not> js_isNaN (snd tw)" by (rule no_nan_weight_d)
next
  fix V
  assume a: "weights_totalValue_d balances prices = Num V \<and> 0 < V
          \<and> (\<forall>t \<in> set (keys balances).
                js_isNaN (token_value_d balances prices t)
                \<or> js_ge (token_value_d balances prices t) (Num 0))
          \<and> length (keys balances) \<le> 1000000"
  then have "\<bar>sum_list (map (\<lambda>tw. the_real (snd tw)) (calculateWeights_d balances prices)) - 1\<bar>
            \<le> 5 / 10 ^ 10"
    by (intro weights_sum_d(2)[of balances prices V]) simp_all
  then show "\<bar>sum_list (map (\<lambda>tw. the_real (snd tw)) (calculateWeights_d balances prices)) - 1\<bar>
            \<le> 1 / 10 ^ 9"
    by simp
next
  fix V
  assume a: "weights_totalValue_d balances prices = Num V \<and> 0 < V
          \<and> (\<forall>t \<in> set (keys balances).
                js_isNaN (token_value_d balances prices t)
                \<or> js_ge (token_value_d balances prices t) (Num 0))
          \<and> length (keys balances) \<le> 1000000"
  then show "\<exists>s. d_sum (map snd (calculateWeights_d balances prices)) = Num s
                 \<and> \<bar>s - 1\<bar> \<le> 1 / 10 ^ 9"
    by (intro weights_sum_d(3)[of balances prices V]) simp_all
next
  fix tw
  assume "weights_totalValue_d balances prices = Num 0"
    and "tw \<in> set (calculateWeights_d balances prices)"
  then show "snd tw = Num 0" by (rule zero_total_zero_weights_d)
qed

text \<open>
  Three tokens worth 2 each and one without a price: its product is NaN and counts as
  zero, the total is 6, each weight is the double nearest to 1/3, and their exact sum
  is \<open>1 - 2 ^ - 54\<close>.
\<close>

lemma wex_values:
  "map (token_value_d [(''A'', Num 1), (''B'', Num 1), (''C'', Num 1), (''D'', Num 5)]
          [(''A'', Num 2), (''B'', Num 2), (''C'', Num 2)]) [''A'', ''B'', ''C'', ''D'']
   = [Num 2, Num 2, Num 2, NaN]"
  by (simp add: token_value_d_def d_mul_def get_def fl_eval)

lemma wex_total:
  "weights_totalValue_d [(''A'', Num 1), (''B'', Num 1), (''C'', Num 1), (''D'', Num 5)]
     [(''A'', Num 2), (''B'', Num 2), (''C'', Num 2)] = Num 6"
  by (simp add: weights_totalValue_d_def keys_def token_value_d_def d_mul_def d_add_def get_def fl_eval)

lemma wex_weights:
  "calculateWeights_d [(''A'', Num 1), (''B'', Num 1), (''C'', Num 1), (''D'', Num 5)]
     [(''A'', Num 2), (''B'', Num 2), (''C'', Num 2)]
   = [(''A'', Num (6004799503160661 / 18014398509481984)),
      (''B'', Num (6004799503160661 / 18014398509481984)),
      (''C'', Num (6004799503160661 / 18014398509481984)),
      (''D'', Num 0)]"
  unfolding calculateWeights_d_def wex_total
  by (simp add: keys_def token_value_d_def d_mul_def d_div_def get_def js_or0_def js_falsy_def fl_eval)

theorem calculateWeights_d_witness:
  "weights_totalValue_d [(''A'', Num 1), (''B'', Num 1), (''C'', Num 1), (''D'', Num 5)]
     [(''A'', Num 2), (''B'', Num 2), (''C'', Num 2)] = Num 6
   \<and> map (token_value_d [(''A'', Num 1), (''B'', Num 1), (''C'', Num 1), (''D'', Num 5)]
          [(''A'', Num 2), (''B'', Num 2), (''C'', Num 2)]) [''A'', ''B'', ''C'', ''D'']
     = [Num 2, Num 2, Num 2, NaN]
   \<and> sum_list (map (\<lambda>tw. the_real (snd tw))
        (calculateWeights_d [(''A'', Num 1), (''B'', Num 1), (''C'', Num 1), (''D'', Num 5)]
           [(''A'', Num 2), (''B'', Num 2), (''C'', Num 2)])) = 1 - 1 / 2 ^ 54
   \<and> \<bar>sum_list (map (\<lambda>tw. the_real (snd tw))
        (calculateWeights_d [(''A'', Num 1), (''B'', Num 1), (''C'', Num 1), (''D'', Num 5)]
           [(''A'', Num 2), (''B'', Num 2), (''C'', Num 2)])) - 1\<bar> \<le> 1 / 10 ^ 9"
proof -
  let ?b = "[(''A'', Num 1), (''B'', Num 1), (''C'', Num 1), (''D'', Num 5)]"
  let ?p = "[(''A'', Num 2), (''B'', Num 2), (''C'', Num 2)]"
  have k: "keys ?b = [''A'', ''B'', ''C'', ''D'']" by (simp add: keys_def)
  have nn: "\<forall>t \<in> set (keys ?b). js_isNaN (token_value_d ?b ?p t)
              \<or> js_ge (token_value_d ?b ?p t) (Num 0)"
    using wex_values unfolding k by (simp add: js_ge_def)
  have n: "length (keys ?b) \<le> 1000000" unfolding k by simp
  have s: "sum_list (map (\<lambda>tw. the_real (snd tw)) (calculateWeights_d ?b ?p)) = 1 - 1 / 2 ^ 54"
    by (simp add: wex_weights)
  have "\<bar>sum_list (map (\<lambda>tw. the_real (snd tw)) (calculateWeights_d ?b ?p)) - 1\<bar> \<le> 1 / 10 ^ 9"
    using calculateWeights_d_nan_as_zero_and_sum_one[of ?b ?p] wex_total nn n by fastforce
  then show ?thesis using wex_total wex_values s by blast
qed

text \<open>
  Claim C8 as stated fails for a product that is infinite, which is not NaN: the
  product of token A is not a finite number, yet it is not counted as zero (the total
  is infinite, hence positive), and the weights sum to 0, not to 1.
\<close>

theorem calculateWeights_d_infinite_value_counterexample:
  "\<not> js_finite (token_value_d [(''A'', Num 1), (''B'', Num 1)] [(''A'', PInf), (''B'', Num 2)] ''A'')
   \<and> weights_totalValue_d [(''A'', Num 1), (''B'', Num 1)] [(''A'', PInf), (''B'', Num 2)] = PInf
   \<and> js_gt (weights_totalValue_d [(''A'', Num 1), (''B'', Num 1)] [(''A'', PInf), (''B'', Num 2)]) (Num 0)
   \<and> calculateWeights_d [(''A'', Num 1), (''B'', Num 1)] [(''A'', PInf), (''B'', Num 2)]
       = [(''A'', Num 0), (''B'', Num 0)]
   \<and> sum_list (map (\<lambda>tw. the_real (snd tw))
        (calculateWeights_d [(''A'', Num 1), (''B'', Num 1)] [(''A'', PInf), (''B'', Num 2)])) = 0
   \<and> d_sum (map snd (calculateWeights_d [(''A'', Num 1), (''B'', Num 1)]
                        [(''A'', PInf), (''B'', Num 2)])) = Num 0"
proof -
  let ?b = "[(''A'', Num 1), (''B'', Num 1)]" and ?p = "[(''A'', PInf), (''B'', Num 2)]"
  have v: "token_value_d ?b ?p ''A'' = PInf" "token_value_d ?b ?p ''B'' = Num 2"
    by (simp_all add: token_value_d_def d_mul_def get_def signed_inf_def fl_eval)
  have t: "weights_totalValue_d ?b ?p = PInf"
    by (simp add: weights_totalValue_d_def keys_def v d_add_def)
  have c: "calculateWeights_d ?b ?p = [(''A'', Num 0), (''B'', Num 0)]"
    by (simp add: calculateWeights_d_def t keys_def v d_div_def js_or0_def js_falsy_def fl_zero)
  show ?thesis
    unfolding c t v by (simp add: js_gt_def d_sum_def d_add_def fl_zero)
qed

text \<open>
  The sum of the weights also needs products that are not negative: with the values
  \<open>2 ^ 54\<close>, 11 and \<open>- 2 ^ 54\<close> the total is 12 as a double (the second addition
  rounds \<open>2 ^ 54 + 11\<close> to \<open>2 ^ 54 + 12\<close>), and the exact sum of the three
  weights is the double nearest to 11/12.
\<close>

lemma calculateWeights_d_cancellation:
  "weights_totalValue_d [(''A'', Num (2 ^ 54)), (''B'', Num 11), (''C'', Num (- (2 ^ 54)))]
     [(''A'', Num 1), (''B'', Num 1), (''C'', Num 1)] = Num 12
   \<and> sum_list (map (\<lambda>tw. the_real (snd tw))
        (calculateWeights_d [(''A'', Num (2 ^ 54)), (''B'', Num 11), (''C'', Num (- (2 ^ 54)))]
           [(''A'', Num 1), (''B'', Num 1), (''C'', Num 1)]))
     = 8256599316845909 / 9007199254740992"
proof -
  let ?b = "[(''A'', Num (2 ^ 54)), (''B'', Num 11), (''C'', Num (- (2 ^ 54)))]"
  let ?p = "[(''A'', Num 1), (''B'', Num 1), (''C'', Num 1)]"
  have t: "weights_totalValue_d ?b ?p = Num 12"
    by (simp add: weights_totalValue_d_def keys_def token_value_d_def d_mul_def d_add_def
        get_def fl_eval)
  have c: "calculateWeights_d ?b ?p
      = [(''A'', Num (6004799503160661 / 4)),
         (''B'', Num (8256599316845909 / 9007199254740992)),
         (''C'', Num (- (6004799503160661 / 4)))]"
    unfolding calculateWeights_d_def t
    by (simp add: keys_def token_value_d_def d_mul_def d_div_def get_def js_or0_def
        js_falsy_def fl_eval)
  show ?thesis unfolding c t by simp
qed


section \<open>Properties of the deviation detector\<close>

lemma get_missing: "k \<notin> set (keys m) \<Longrightarrow> get m k = NaN"
  by (simp add: get_def keys_def map_of_eq_None_iff[THEN iffD2])

lemma js_gt_abs_NaN: "\<not> js_gt (js_abs (js_sub NaN x)) y"
  by (cases y) (simp_all add: js_gt_def js_sub_def)

lemma js_gt_irrefl: "\<not> js_gt x x"
  by (cases x) (simp_all add: js_gt_def)

lemma detect_trades_iff:
  "(token, d) \<in> set (detect_trades b cw tv ks) \<longleftrightarrow>
     token \<in> set ks \<and> d = deviation b cw token
     \<and> js_gt (js_abs (deviation b cw token)) (deviationThreshold b)
     \<and> js_gt (js_abs (js_mul (deviation b cw token) tv)) (minTradeUSD b)"
  by (induction ks) (auto simp: Let_def)

lemma unlisted_not_flagged:
  "token \<notin> set (keys cw) \<Longrightarrow> \<not> js_gt (js_abs (deviation b cw token)) (deviationThreshold b)"
  by (simp add: deviation_def get_missing js_gt_abs_NaN)

text \<open>
  Claim C4.  For every token, the pair of the token and a deviation is among the trade
  intents of a pass exactly when the deviation is that of the token (current weight
  minus target weight), its absolute value is strictly greater than the threshold, and
  the absolute value of deviation times total portfolio value is strictly greater than
  the minimum trade value.  In particular a token whose absolute deviation equals the
  threshold produces no intent.
\<close>

theorem trade_intent_iff_both_thresholds:
  "((token, d) \<in> set (trade_intents b currentWeights balances prices)
      \<longleftrightarrow> d = deviation b currentWeights token
          \<and> js_gt (js_abs (deviation b currentWeights token)) (deviationThreshold b)
          \<and> js_gt (js_abs (js_mul (deviation b currentWeights token)
                                (rebalance_totalValue balances prices)))
                   (minTradeUSD b))
   \<and> (js_abs (deviation b currentWeights token) = deviationThreshold b
        \<longrightarrow> (token, d) \<notin> set (trade_intents b currentWeights balances prices))"
  using unlisted_not_flagged[of token currentWeights b] js_gt_irrefl[of "deviationThreshold b"]
  by (auto simp: trade_intents_def detect_trades_iff)

text \<open>
  Targets 40/30/20/10 percent, threshold 5 percent, minimum trade 10, total value 100.
  A is over by exactly the threshold, C is over the threshold by value 7 only, B is
  under by 12 percent and value 12: B alone is flagged.
\<close>

theorem trade_intent_witness:
  "trade_intents
     (bot_of [(''A'', Num (2 / 5)), (''B'', Num (3 / 10)), (''C'', Num (1 / 5)),
              (''WETH'', Num (1 / 10))] (Num (1 / 20)) (Num 10))
     [(''A'', Num (9 / 20)), (''B'', Num (9 / 50)), (''C'', Num (27 / 100)), (''WETH'', Num (1 / 10))]
     [(''A'', Num 45), (''B'', Num 18), (''C'', Num 27), (''WETH'', Num 10)]
     [(''A'', Num 1), (''B'', Num 1), (''C'', Num 1), (''WETH'', Num 1)]
   = [(''B'', Num (- (3 / 25)))]
   \<and> (''A'', Num (1 / 20)) \<notin> set (trade_intents
     (bot_of [(''A'', Num (2 / 5)), (''B'', Num (3 / 10)), (''C'', Num (1 / 5)),
              (''WETH'', Num (1 / 10))] (Num (1 / 20)) (Num 10))
     [(''A'', Num (9 / 20)), (''B'', Num (9 / 50)), (''C'', Num (27 / 100)), (''WETH'', Num (1 / 10))]
     [(''A'', Num 45), (''B'', Num 18), (''C'', Num 27), (''WETH'', Num 10)]
     [(''A'', Num 1), (''B'', Num 1), (''C'', Num 1), (''WETH'', Num 1)])"
proof -
  let ?b = "bot_of [(''A'', Num (2 / 5)), (''B'', Num (3 / 10)), (''C'', Num (1 / 5)),
              (''WETH'', Num (1 / 10))] (Num (1 / 20)) (Num 10)"
  let ?cw = "[(''A'', Num (9 / 20)), (''B'', Num (9 / 50)), (''C'', Num (27 / 100)),
              (''WETH'', Num (1 / 10))]"
  let ?bal = "[(''A'', Num 45), (''B'', Num 18), (''C'', Num 27), (''WETH'', Num 10)]"
  let ?pr = "[(''A'', Num 1), (''B'', Num 1), (''C'', Num 1), (''WETH'', Num 1)]"
  have e: "trade_intents ?b ?cw ?bal ?pr = [(''B'', Num (- (3 / 25)))]"
    by (simp add: trade_intents_def bot_of_def keys_def get_def deviation_def js_sub_def
        js_gt_def rebalance_totalValue_def Let_def)
  have d: "js_abs (deviation ?b ?cw ''A'') = deviationThreshold ?b"
    by (simp add: bot_of_def get_def deviation_def js_sub_def)
  have n: "(''A'', Num (1 / 20)) \<notin> set (trade_intents ?b ?cw ?bal ?pr)"
    using trade_intent_iff_both_thresholds[of "''A''" "Num (1 / 20)" ?b ?cw ?bal ?pr] d by blast
  show ?thesis using e n by blast
qed
section \<open>Properties of the baseline tracker\<close>

lemma js_sub_self: "js_sub x x = (if js_finite x then Num 0 else NaN)"
  by (cases x) (simp_all add: js_sub_def)

lemma percent_of_zero: "percent_of (Num 0) x = Num 0"
  by (cases x) (simp_all add: percent_of_def js_gt_def)

text \<open>
  Claim C10, as amended.  When the current balance map is the baseline snapshot itself,
  the current value and the HODL value are the same sum, and the rebalance-vs-hodl
  difference is exactly 0 if that sum is a finite number and NaN if it is not (a token
  of the snapshot without a price makes it NaN).  In the first case the percentage is 0
  too.
\<close>

theorem hodl_comparison_on_baseline:
  "currentValue (calculateHodlComparison b now (initialBalances b) prices)
     = hodlValue (calculateHodlComparison b now (initialBalances b) prices)
   \<and> rebalanceVsHodl (calculateHodlComparison b now (initialBalances b) prices)
     = (if js_finite (hodlValue (calculateHodlComparison b now (initialBalances b) prices))
        then Num 0 else NaN)
   \<and> (js_finite (hodlValue (calculateHodlComparison b now (initialBalances b) prices))
        \<longrightarrow> rebalanceVsHodlPercent (calculateHodlComparison b now (initialBalances b) prices)
            = Num 0)"
  by (simp add: calculateHodlComparison_def Let_def js_sub_self percent_of_zero)

text \<open>A baseline of 0.5 cbBTC and 2 WETH at the prices 100000 and 4000.\<close>

theorem hodl_comparison_witness:
  "hodlValue (calculateHodlComparison
        ((bot_of [] (Num (1 / 20)) (Num 5))
           \<lparr>initialBalances := [(''cbBTC'', Num (1 / 2)), (''WETH'', Num 2)]\<rparr>)
        (Num 0) [(''cbBTC'', Num (1 / 2)), (''WETH'', Num 2)]
        [(''cbBTC'', Num 100000), (''WETH'', Num 4000)]) = Num 58000
   \<and> rebalanceVsHodl (calculateHodlComparison
        ((bot_of [] (Num (1 / 20)) (Num 5))
           \<lparr>initialBalances := [(''cbBTC'', Num (1 / 2)), (''WETH'', Num 2)]\<rparr>)
        (Num 0) [(''cbBTC'', Num (1 / 2)), (''WETH'', Num 2)]
        [(''cbBTC'', Num 100000), (''WETH'', Num 4000)]) = Num 0
   \<and> rebalanceVsHodlPercent (calculateHodlComparison
        ((bot_of [] (Num (1 / 20)) (Num 5))
           \<lparr>initialBalances := [(''cbBTC'', Num (1 / 2)), (''WETH'', Num 2)]\<rparr>)
        (Num 0) [(''cbBTC'', Num (1 / 2)), (''WETH'', Num 2)]
        [(''cbBTC'', Num 100000), (''WETH'', Num 4000)]) = Num 0"
proof -
  let ?ib = "[(''cbBTC'', Num (1 / 2)), (''WETH'', Num 2)]"
  let ?pr = "[(''cbBTC'', Num 100000), (''WETH'', Num 4000)]"
  let ?b = "(bot_of [] (Num (1 / 20)) (Num 5))\<lparr>initialBalances := ?ib\<rparr>"
  have i: "initialBalances ?b = ?ib" by simp
  have h: "hodlValue (calculateHodlComparison ?b (Num 0) ?ib ?pr) = Num 58000"
    by (simp add: calculateHodlComparison_def Let_def value_of_def keys_def get_def)
  have "rebalanceVsHodl (calculateHodlComparison ?b (Num 0) ?ib ?pr) = Num 0
      \<and> rebalanceVsHodlPercent (calculateHodlComparison ?b (Num 0) ?ib ?pr) = Num 0"
    using hodl_comparison_on_baseline[of ?b "Num 0" ?pr] h by (simp only: i) simp
  then show ?thesis using h by blast
qed

text \<open>
  Claim C10 as stated fails for a price map that lacks a token of the baseline: the
  product of WETH is NaN, so are both sums, and the difference is NaN, not 0.
\<close>

theorem hodl_comparison_unpriced_token_counterexample:
  "rebalanceVsHodl (calculateHodlComparison
        ((bot_of [] (Num (1 / 20)) (Num 5))
           \<lparr>initialBalances := [(''cbBTC'', Num (1 / 2)), (''WETH'', Num 2)]\<rparr>)
        (Num 0) [(''cbBTC'', Num (1 / 2)), (''WETH'', Num 2)]
        [(''cbBTC'', Num 100000)]) = NaN
   \<and> rebalanceVsHodl (calculateHodlComparison
        ((bot_of [] (Num (1 / 20)) (Num 5))
           \<lparr>initialBalances := [(''cbBTC'', Num (1 / 2)), (''WETH'', Num 2)]\<rparr>)
        (Num 0) [(''cbBTC'', Num (1 / 2)), (''WETH'', Num 2)]
        [(''cbBTC'', Num 100000)]) \<noteq> Num 0"
  by (simp add: calculateHodlComparison_def Let_def value_of_def keys_def get_def js_sub_def)

section \<open>Properties of the price cache\<close>

lemma ticker_prices_a:
  "ticker_prices tickers_a =
     [(''cbBTC'', Num 100000), (''WETH'', Num 4000), (''cbXRP'', Num 2),
      (''cbADA'', Num 1), (''cbDOGE'', Num (1 / 5)), (''AAVE'', Num 300)]"
  by (simp add: ticker_prices_def tickers_a_def reverseMap_def symbolMap_def put_def)

lemma ticker_prices_b:
  "ticker_prices tickers_b =
     [(''cbBTC'', Num 101000), (''WETH'', Num 4100), (''cbXRP'', Num 3),
      (''cbADA'', Num 2), (''cbDOGE'', Num (1 / 4)), (''AAVE'', Num 310)]"
  by (simp add: ticker_prices_def tickers_b_def reverseMap_def symbolMap_def put_def)

text \<open>
  The cache entry written by a successful fetch has no \<open>maxAge\<close>, and the one the
  constructor creates has timestamp 0: neither is ever fresh, so from the constructor
  on no call of \<open>getPrices\<close> answers from the cache.
\<close>

lemma never_fresh_new_bot: "never_fresh (new_bot env thr mt now)"
  by (simp add: never_fresh_def new_bot_def initial_cache_def)

lemma never_fresh_not_cached:
  assumes "never_fresh b"
  shows "fst (getPrices b now now' response) \<noteq> Cached m"
    and "never_fresh (snd (getPrices b now now' response))"
  using assms
  by (auto simp: never_fresh_def getPrices_def cache_fresh_def getPricesFromBinance_def Let_def
      split: option.splits prod.splits if_splits)

text \<open>
  Claim C3 fails on the code.  A new bot fetches at time 1000 and stores the entry at
  time 1001; the entry has no maximum age.  One millisecond later, well inside the five
  minutes, \<open>getPrices\<close> does not return the cached map: it fetches again and returns
  the new answer of the price source (and, when that fetch fails, the last-known
  store).  The successful fetch does replace the cache and merge into the store.
\<close>

theorem getPrices_ignores_fresh_cache:
  "fst (getPrices (new_bot Unset NaN NaN (Num 0)) 1000 1001 (Some tickers_a))
     = Fetched (ticker_prices tickers_a)
   \<and> priceCache (snd (getPrices (new_bot Unset NaN NaN (Num 0)) 1000 1001 (Some tickers_a)))
     = \<lparr>cache_prices = ticker_prices tickers_a, cache_timestamp = 1001, cache_maxAge = None\<rparr>
   \<and> lastKnownPrices (snd (getPrices (new_bot Unset NaN NaN (Num 0)) 1000 1001 (Some tickers_a)))
     = ticker_prices tickers_a
   \<and> fst (getPrices (snd (getPrices (new_bot Unset NaN NaN (Num 0)) 1000 1001 (Some tickers_a)))
            1002 1003 (Some tickers_b))
     = Fetched (ticker_prices tickers_b)
   \<and> fst (getPrices (snd (getPrices (new_bot Unset NaN NaN (Num 0)) 1000 1001 (Some tickers_a)))
            1002 1003 None)
     = LastKnown (ticker_prices tickers_a)"
  by (simp add: getPrices_def getPricesFromBinance_def cache_fresh_def new_bot_def
      initial_cache_def Let_def ticker_prices_a ticker_prices_b keys_def spread_def put_def)

section \<open>Target weights at start-up\<close>

lemma constructor_accepts_any_map:
  "weights (new_bot (Parsed w) thr mt now) = w"
  by (simp add: new_bot_def constructor_weights_def)

text \<open>
  Claim C1 fails on the code.  The constructor stores a parsed weight map as it is:
  the map with weights 1/2 and 1/10, which sum to 3/5, becomes the target weights of the
  running bot.  The web interface, the one place that checks the sum, refuses the same
  map, but with a tolerance of 0.01: it accepts a map whose weights sum to 1.005.
\<close>

theorem constructor_keeps_weights_not_summing_to_one:
  "weights (new_bot (Parsed [(''cbBTC'', Num (1 / 2)), (''WETH'', Num (1 / 10))]) NaN NaN (Num 0))
     = [(''cbBTC'', Num (1 / 2)), (''WETH'', Num (1 / 10))]
   \<and> js_sum (map snd (weights
        (new_bot (Parsed [(''cbBTC'', Num (1 / 2)), (''WETH'', Num (1 / 10))]) NaN NaN (Num 0))))
     = Num (3 / 5)
   \<and> api_config_weights (new_bot Unset NaN NaN (Num 0))
        [(''cbBTC'', Num (1 / 2)), (''WETH'', Num (1 / 10))] = Inl Weights_must_sum_to_100
   \<and> api_config_weights (new_bot Unset NaN NaN (Num 0))
        [(''cbBTC'', Num (1 / 2)), (''WETH'', Num (505 / 1000))]
     = Inr ((new_bot Unset NaN NaN (Num 0))
              \<lparr>weights := [(''cbBTC'', Num (1 / 2)), (''WETH'', Num (505 / 1000))]\<rparr>)"
  by (simp add: new_bot_def constructor_weights_def js_sum_def api_config_weights_def
      js_sub_def js_gt_def)

section \<open>Lemmas on comparisons and sorting\<close>

lemma js_gt_sub_zero: "js_gt (js_sub a b) (Num 0) = js_gt a b"
  by (cases a; cases b) (simp_all add: js_gt_def js_sub_def)

lemma js_gt_imp_ge: "js_gt a b \<Longrightarrow> js_ge a b"
  by (cases a; cases b) (simp_all add: js_gt_def js_ge_def)

lemma js_lt_imp_le: "js_lt a b \<Longrightarrow> js_le a b"
  by (cases a; cases b) simp_all

lemma js_ge_total: "\<not> js_isNaN a \<Longrightarrow> \<not> js_isNaN b \<Longrightarrow> \<not> js_gt a b \<Longrightarrow> js_ge b a"
  by (cases a; cases b) (simp_all add: js_gt_def js_ge_def)

lemma js_le_total: "\<not> js_isNaN a \<Longrightarrow> \<not> js_isNaN b \<Longrightarrow> \<not> js_gt a b \<Longrightarrow> js_le a b"
  by (cases a; cases b) (simp_all add: js_gt_def)

lemma js_le_trans: "js_le a b \<Longrightarrow> js_le b c \<Longrightarrow> js_le a c"
  by (cases a; cases b; cases c) simp_all

lemma js_ge_trans: "js_ge a b \<Longrightarrow> js_ge b c \<Longrightarrow> js_ge a c"
  unfolding js_ge_def using js_le_trans by blast

lemma js_gt_not_NaN: "js_gt a b \<Longrightarrow> \<not> js_isNaN a \<and> \<not> js_isNaN b"
  by (cases a; cases b) (simp_all add: js_gt_def)

lemma js_lt_not_NaN: "js_lt a b \<Longrightarrow> \<not> js_isNaN a \<and> \<not> js_isNaN b"
  by (cases a; cases b) simp_all

lemma mset_js_insert: "mset (js_insert cmp x ys) = add_mset x (mset ys)"
  by (induction ys) auto

lemma mset_js_sort: "mset (js_sort cmp xs) = mset xs"
  by (induction xs) (auto simp: js_sort_def mset_js_insert)

lemma set_js_insert: "set (js_insert cmp x ys) = insert x (set ys)"
  using mset_js_insert[of cmp x ys] by (metis set_mset_add_mset_insert set_mset_mset)

lemma set_js_sort: "set (js_sort cmp xs) = set xs"
  using mset_js_sort[of cmp xs] by (metis set_mset_mset)

lemma sorted_js_insert:
  assumes later: "\<And>y. y \<in> set ys \<Longrightarrow> js_gt (cmp x y) (Num 0) \<Longrightarrow> R y x"
    and earlier: "\<And>y. y \<in> set ys \<Longrightarrow> \<not> js_gt (cmp x y) (Num 0) \<Longrightarrow> R x y"
    and trans: "\<And>a b c. R a b \<Longrightarrow> R b c \<Longrightarrow> R a c"
    and sorted: "sorted_wrt R ys"
  shows "sorted_wrt R (js_insert cmp x ys)"
  using later earlier sorted
proof (induction ys)
  case Nil
  then show ?case by simp
next
  case (Cons y ys)
  show ?case
  proof (cases "js_gt (cmp x y) (Num 0)")
    case True
    have "sorted_wrt R (js_insert cmp x ys)"
      using Cons by auto
    moreover have "R y x" using Cons.prems(1) True by simp
    ultimately show ?thesis using True Cons.prems(3) by (auto simp: set_js_insert)
  next
    case False
    have xy: "R x y" using Cons.prems(2) False by simp
    then have "\<forall>z \<in> set ys. R x z" using Cons.prems(3) trans by auto
    then show ?thesis using False xy Cons.prems(3) by auto
  qed
qed

lemma sorted_js_sort:
  assumes later: "\<And>x y. x \<in> set xs \<Longrightarrow> y \<in> set xs \<Longrightarrow> js_gt (cmp x y) (Num 0) \<Longrightarrow> R y x"
    and earlier: "\<And>x y. x \<in> set xs \<Longrightarrow> y \<in> set xs \<Longrightarrow> \<not> js_gt (cmp x y) (Num 0) \<Longrightarrow> R x y"
    and trans: "\<And>a b c. R a b \<Longrightarrow> R b c \<Longrightarrow> R a c"
  shows "sorted_wrt R (js_sort cmp xs)"
  using later earlier
proof (induction xs)
  case Nil
  then show ?case by (simp add: js_sort_def)
next
  case (Cons x xs)
  have "sorted_wrt R (js_sort cmp xs)" using Cons by auto
  then have "sorted_wrt R (js_insert cmp x (js_sort cmp xs))"
    using Cons.prems trans by (intro sorted_js_insert) (auto simp: set_js_sort)
  then show ?case by (simp add: js_sort_def)
qed

lemma sellTrades_sorted: "sorted_wrt (\<lambda>x y. js_ge (snd x) (snd y)) (sellTrades trades)"
  unfolding sellTrades_def
proof (rule sorted_js_sort)
  fix x y :: trade
  assume "js_gt (js_sub (snd y) (snd x)) (Num 0)"
  then show "js_ge (snd y) (snd x)" by (simp add: js_gt_sub_zero js_gt_imp_ge)
next
  fix x y :: trade
  assume "x \<in> set (filter (\<lambda>t. js_gt (snd t) (Num 0)) trades)"
    and "y \<in> set (filter (\<lambda>t. js_gt (snd t) (Num 0)) trades)"
    and "\<not> js_gt (js_sub (snd y) (snd x)) (Num 0)"
  then show "js_ge (snd x) (snd y)"
    using js_gt_not_NaN[of "snd x" "Num 0"] js_gt_not_NaN[of "snd y" "Num 0"]
    by (simp add: js_gt_sub_zero js_ge_total)
next
  fix a b c :: trade
  assume "js_ge (snd a) (snd b)" "js_ge (snd b) (snd c)"
  then show "js_ge (snd a) (snd c)" by (rule js_ge_trans)
qed

lemma buyTrades_sorted: "sorted_wrt (\<lambda>x y. js_le (snd x) (snd y)) (buyTrades trades)"
  unfolding buyTrades_def
proof (rule sorted_js_sort)
  fix x y :: trade
  assume "js_gt (js_sub (snd x) (snd y)) (Num 0)"
  then have "js_gt (snd x) (snd y)" by (simp add: js_gt_sub_zero)
  then show "js_le (snd y) (snd x)" by (simp add: js_gt_def js_lt_imp_le)
next
  fix x y :: trade
  assume "x \<in> set (filter (\<lambda>t. js_lt (snd t) (Num 0)) trades)"
    and "y \<in> set (filter (\<lambda>t. js_lt (snd t) (Num 0)) trades)"
    and "\<not> js_gt (js_sub (snd x) (snd y)) (Num 0)"
  then show "js_le (snd x) (snd y)"
    using js_lt_not_NaN[of "snd x" "Num 0"] js_lt_not_NaN[of "snd y" "Num 0"]
    by (simp add: js_gt_sub_zero js_le_total)
next
  fix a b c :: trade
  assume "js_le (snd a) (snd b)" "js_le (snd b) (snd c)"
  then show "js_le (snd a) (snd c)" by (rule js_le_trans)
qed

lemma mset_sellTrades:
  "mset (sellTrades trades) = mset (filter (\<lambda>t. js_gt (snd t) (Num 0)) trades)"
  by (simp add: sellTrades_def mset_js_sort)

lemma mset_buyTrades:
  "mset (buyTrades trades) = mset (filter (\<lambda>t. js_lt (snd t) (Num 0)) trades)"
  by (simp add: buyTrades_def mset_js_sort)

section \<open>Lemmas on the swap executor and the steps of a pass\<close>

lemma swap_cases [case_names same no_order rejected accepted]:
  obtains
    "f = t"
    "swap w ctx st f t a = (False, st\<lparr>trace := trace st @ [SwapCall ctx f t a False]\<rparr>)"
  | "f \<noteq> t"
    "swap w ctx st f t a =
       (False, st\<lparr>answered := Suc (answered st), trace := trace st @ [SwapCall ctx f t a False]\<rparr>)"
  | "f \<noteq> t" "js_finite a"
    "swap w ctx st f t a =
       (False, st\<lparr>answered := Suc (answered st),
                   trace := trace st @ [Order ctx f t a, SwapCall ctx f t a False]\<rparr>)"
  | "f \<noteq> t" "js_finite a"
    "swap w ctx st f t a =
       (True, st\<lparr>answered := Suc (answered st),
                  trace := trace st @ [Order ctx f t a, SwapCall ctx f t a True]\<rparr>)"
proof (cases "f = t")
  case True
  then show ?thesis using that(1) by (simp add: swap_def emit_def)
next
  case False
  show ?thesis
  proof (cases "w (answered st)")
    case AllowanceFailed
    then show ?thesis using False that(2) by (simp add: swap_def emit_def)
  next
    case FailedBeforeOrder
    then show ?thesis using False that(2) by (simp add: swap_def emit_def)
  next
    case OrderRejected
    then show ?thesis using False that(2,3) by (cases "js_finite a") (simp_all add: swap_def emit_def)
  next
    case OrderAccepted
    then show ?thesis using False that(2,4) by (cases "js_finite a") (simp_all add: swap_def emit_def)
  qed
qed

lemma sell_trade_cases [case_names skipped failed rejected sold]:
  fixes b w prices totalValue st tr
  defines "tok \<equiv> fst tr"
    and "cv \<equiv> js_mul (get (bal st) (fst tr)) (get prices (fst tr))"
    and "tv \<equiv> js_mul totalValue (get (weights b) (fst tr))"
  defines "amt \<equiv> js_div (js_sub cv tv) (get prices tok)"
    and "st' \<equiv> sell_trade b w prices totalValue st tr"
  obtains
    "\<not> js_ge amt (Num (1 / 100000))" "bal st' = bal st"
    "trace st' = trace st @ [Processing SellPhase tok]"
  | "js_ge amt (Num (1 / 100000))" "bal st' = bal st"
    "trace st' = trace st @ [Processing SellPhase tok,
                             SwapCall (SellCtx cv tv) tok (baseToken b) amt False]"
  | "js_ge amt (Num (1 / 100000))" "tok \<noteq> baseToken b" "js_finite amt" "bal st' = bal st"
    "trace st' = trace st @ [Processing SellPhase tok,
                             Order (SellCtx cv tv) tok (baseToken b) amt,
                             SwapCall (SellCtx cv tv) tok (baseToken b) amt False]"
  | "js_ge amt (Num (1 / 100000))" "tok \<noteq> baseToken b" "js_finite amt"
    "bal st' =
       put (put (bal st) tok (js_sub (get (bal st) tok) amt)) (baseToken b)
         (js_add (get (put (bal st) tok (js_sub (get (bal st) tok) amt)) (baseToken b))
            (js_mul (js_div (js_sub cv tv) (get prices (baseToken b))) (Num (98 / 100))))"
    "trace st' = trace st @ [Processing SellPhase tok,
                             Order (SellCtx cv tv) tok (baseToken b) amt,
                             SwapCall (SellCtx cv tv) tok (baseToken b) amt True,
                             Updated SellPhase (bal st')]"
proof (cases "js_ge amt (Num (1 / 100000))")
  case False
  then show ?thesis
    using that(1) unfolding st'_def amt_def cv_def tv_def tok_def
    by (simp add: sell_trade_def emit_def Let_def)
next
  case True
  let ?st0 = "emit (Processing SellPhase tok) st"
  show ?thesis
  proof (cases rule: swap_cases[where f = tok and t = "baseToken b" and w = w
        and ctx = "SellCtx cv tv" and st = ?st0 and a = amt])
    case same
    then show ?thesis
      using True that(2) unfolding st'_def amt_def cv_def tv_def tok_def
      by (simp add: sell_trade_def emit_def Let_def)
  next
    case no_order
    then show ?thesis
      using True that(2) unfolding st'_def amt_def cv_def tv_def tok_def
      by (simp add: sell_trade_def emit_def Let_def)
  next
    case rejected
    then show ?thesis
      using True that(3) unfolding st'_def amt_def cv_def tv_def tok_def
      by (simp add: sell_trade_def emit_def Let_def)
  next
    case accepted
    then show ?thesis
      using True that(4) unfolding st'_def amt_def cv_def tv_def tok_def
      by (simp add: sell_trade_def emit_def Let_def)
  qed
qed


lemma buy_trade_cases [case_names base skipped failed rejected bought]:
  fixes b w prices totalValue st tr
  defines "tok \<equiv> fst tr"
    and "needed \<equiv> js_sub (js_mul totalValue (get (weights b) (fst tr)))
                     (js_mul (get (bal st) (fst tr)) (get prices (fst tr)))"
  defines "amt \<equiv> js_div needed (get prices (baseToken b))"
    and "st' \<equiv> buy_trade b w prices totalValue st tr"
  obtains
    "tok = baseToken b" "bal st' = bal st"
    "trace st' = trace st @ [Processing BuyPhase tok]"
  | "tok \<noteq> baseToken b"
    "\<not> (js_ge amt (Num (1 / 10000)) \<and> js_ge (get (bal st) (baseToken b)) amt)"
    "bal st' = bal st"
    "trace st' = trace st @ [Processing BuyPhase tok]"
  | "tok \<noteq> baseToken b" "js_ge amt (Num (1 / 10000))" "js_ge (get (bal st) (baseToken b)) amt"
    "bal st' = bal st"
    "trace st' = trace st @ [Processing BuyPhase tok,
                             SwapCall (BuyCtx needed) (baseToken b) tok amt False]"
  | "tok \<noteq> baseToken b" "js_ge amt (Num (1 / 10000))" "js_ge (get (bal st) (baseToken b)) amt"
    "js_finite amt" "bal st' = bal st"
    "trace st' = trace st @ [Processing BuyPhase tok,
                             Order (BuyCtx needed) (baseToken b) tok amt,
                             SwapCall (BuyCtx needed) (baseToken b) tok amt False]"
  | "tok \<noteq> baseToken b" "js_ge amt (Num (1 / 10000))" "js_ge (get (bal st) (baseToken b)) amt"
    "js_finite amt"
    "bal st' = put (bal st) (baseToken b) (js_sub (get (bal st) (baseToken b)) amt)"
    "trace st' = trace st @ [Processing BuyPhase tok,
                             Order (BuyCtx needed) (baseToken b) tok amt,
                             SwapCall (BuyCtx needed) (baseToken b) tok amt True,
                             Updated BuyPhase (bal st')]"
proof (cases "tok = baseToken b")
  case True
  then show ?thesis
    using that(1) unfolding st'_def tok_def by (simp add: buy_trade_def emit_def Let_def)
next
  case nb: False
  show ?thesis
  proof (cases "js_ge amt (Num (1 / 10000)) \<and> js_ge (get (bal st) (baseToken b)) amt")
    case False
    then show ?thesis
      using nb that(2) unfolding st'_def amt_def needed_def tok_def
      by (auto simp: buy_trade_def emit_def Let_def)
  next
    case True
    let ?st0 = "emit (Processing BuyPhase tok) st"
    show ?thesis
    proof (cases rule: swap_cases[where f = "baseToken b" and t = tok and w = w
          and ctx = "BuyCtx needed" and st = ?st0 and a = amt])
      case same
      then show ?thesis using nb by simp
    next
      case no_order
      then show ?thesis
        using True nb that(3) unfolding st'_def amt_def needed_def tok_def
        by (simp add: buy_trade_def emit_def Let_def)
    next
      case rejected
      then show ?thesis
        using True nb that(4) unfolding st'_def amt_def needed_def tok_def
        by (simp add: buy_trade_def emit_def Let_def)
    next
      case accepted
      then show ?thesis
        using True nb that(5) unfolding st'_def amt_def needed_def tok_def
        by (simp add: buy_trade_def emit_def Let_def)
    qed
  qed
qed

lemma deficit_loop_cases [case_names enough skip failed rejected sold]:
  fixes b w prices rem st ow rest
  defines "tok \<equiv> ow_token ow"
    and "v \<equiv> js_min (ow_excessValue ow) rem"
  defines "amt \<equiv> js_div v (get prices tok)"
    and "ctx \<equiv> DeficitCtx (ow_excessValue ow) rem v"
    and "st' \<equiv> deficit_loop b w prices rem st (ow # rest)"
  obtains
    "js_le rem (Num 1)" "bal st' = bal st" "trace st' = trace st @ [DeficitEnough rem]"
  | "\<not> js_le rem (Num 1)" "\<not> js_gt v (minTradeUSD b)"
    "st' = deficit_loop b w prices rem
             (emit (DeficitSkip tok (ow_excessValue ow) rem v) st) rest"
  | st1 where "\<not> js_le rem (Num 1)" "js_gt v (minTradeUSD b)"
    "bal st1 = bal st" "trace st1 = trace st @ [SwapCall ctx tok (baseToken b) amt False]"
    "st' = deficit_loop b w prices rem st1 rest"
  | st1 where "\<not> js_le rem (Num 1)" "js_gt v (minTradeUSD b)" "tok \<noteq> baseToken b"
    "js_finite amt" "bal st1 = bal st"
    "trace st1 = trace st @ [Order ctx tok (baseToken b) amt,
                             SwapCall ctx tok (baseToken b) amt False]"
    "st' = deficit_loop b w prices rem st1 rest"
  | st1 where "\<not> js_le rem (Num 1)" "js_gt v (minTradeUSD b)" "tok \<noteq> baseToken b"
    "js_finite amt"
    "bal st1 =
       put (put (bal st) tok (js_sub (get (bal st) tok) amt)) (baseToken b)
         (js_add (get (put (bal st) tok (js_sub (get (bal st) tok) amt)) (baseToken b))
            (js_mul (js_div v (get prices (baseToken b))) (Num (98 / 100))))"
    "trace st1 = trace st @ [Order ctx tok (baseToken b) amt,
                             SwapCall ctx tok (baseToken b) amt True,
                             Updated DeficitPhase (bal st1)]"
    "st' = deficit_loop b w prices (js_sub rem v) st1 rest"
proof (cases "js_le rem (Num 1)")
  case True
  then show ?thesis using that(1) unfolding st'_def by (simp add: emit_def)
next
  case more: False
  show ?thesis
  proof (cases "js_gt v (minTradeUSD b)")
    case False
    then show ?thesis
      using more that(2) unfolding st'_def v_def tok_def by (simp add: Let_def)
  next
    case True
    show ?thesis
    proof (cases rule: swap_cases[where f = tok and t = "baseToken b" and w = w
          and ctx = ctx and st = st and a = amt])
      case same
      then show ?thesis
        using True more
          that(3)[of "st\<lparr>trace := trace st @ [SwapCall ctx tok (baseToken b) amt False]\<rparr>"]
        unfolding st'_def amt_def ctx_def v_def tok_def by (simp add: Let_def)
    next
      case no_order
      then show ?thesis
        using True more
          that(3)[of "st\<lparr>answered := Suc (answered st),
                         trace := trace st @ [SwapCall ctx tok (baseToken b) amt False]\<rparr>"]
        unfolding st'_def amt_def ctx_def v_def tok_def by (simp add: Let_def)
    next
      case rejected
      then show ?thesis
        using True more
          that(4)[of "st\<lparr>answered := Suc (answered st),
                         trace := trace st @ [Order ctx tok (baseToken b) amt,
                                              SwapCall ctx tok (baseToken b) amt False]\<rparr>"]
        unfolding st'_def amt_def ctx_def v_def tok_def by (simp add: Let_def)
    next
      case accepted
      then show ?thesis
        using True more
          that(5)[of "emit (Updated DeficitPhase
                (put (put (bal st) tok (js_sub (get (bal st) tok) amt)) (baseToken b)
                   (js_add (get (put (bal st) tok (js_sub (get (bal st) tok) amt)) (baseToken b))
                      (js_mul (js_div v (get prices (baseToken b))) (Num (98 / 100))))))
              (st\<lparr>answered := Suc (answered st),
                  trace := trace st @ [Order ctx tok (baseToken b) amt,
                                       SwapCall ctx tok (baseToken b) amt True],
                  bal := put (put (bal st) tok (js_sub (get (bal st) tok) amt)) (baseToken b)
                   (js_add (get (put (bal st) tok (js_sub (get (bal st) tok) amt)) (baseToken b))
                      (js_mul (js_div v (get prices (baseToken b))) (Num (98 / 100))))\<rparr>)"]
        unfolding st'_def amt_def ctx_def v_def tok_def by (simp add: Let_def emit_def)
    qed
  qed
qed

section \<open>Lemmas on traces\<close>

lemma processed_append: "processed ph (xs @ ys) = processed ph xs @ processed ph ys"
  by (induction ph xs rule: processed.induct) auto

lemma growsI: "trace st' = trace st @ evs \<Longrightarrow> list_all P evs \<Longrightarrow> grows P st st'"
  unfolding grows_def by blast

lemma grows_refl: "grows P st st"
  unfolding grows_def by simp

lemma grows_trans: "grows P st st' \<Longrightarrow> grows P st' st'' \<Longrightarrow> grows P st st''"
  unfolding grows_def by auto

lemma grows_emit: "P e \<Longrightarrow> grows P st (emit e st)"
  unfolding grows_def emit_def by simp

lemma grows_foldl:
  assumes "\<And>s x. x \<in> set xs \<Longrightarrow> grows P s (f s x)"
  shows "grows P st (foldl f st xs)"
  using assms
proof (induction xs arbitrary: st)
  case Nil
  show ?case by (simp add: grows_refl)
next
  case (Cons x xs)
  have "grows P st (f st x)" using Cons.prems by simp
  moreover have "grows P (f st x) (foldl f (f st x) xs)" using Cons by simp
  ultimately show ?case using grows_trans by fastforce
qed

lemma grows_from_empty: "trace st = [] \<Longrightarrow> grows P st st' \<Longrightarrow> list_all P (trace st')"
  unfolding grows_def by auto

lemma sell_trade_grows:
  assumes "P (Processing SellPhase (fst tr))"
    and "\<And>cv amt ok. js_ge amt (Num (1 / 100000)) \<Longrightarrow>
           (ok \<Longrightarrow> fst tr \<noteq> baseToken b \<and> js_finite amt) \<Longrightarrow>
           amt = js_div (js_sub cv (js_mul totalValue (get (weights b) (fst tr))))
                   (get prices (fst tr)) \<Longrightarrow>
           P (SwapCall (SellCtx cv (js_mul totalValue (get (weights b) (fst tr))))
                (fst tr) (baseToken b) amt ok)"
    and "\<And>cv amt. js_ge amt (Num (1 / 100000)) \<Longrightarrow> fst tr \<noteq> baseToken b \<Longrightarrow> js_finite amt \<Longrightarrow>
           amt = js_div (js_sub cv (js_mul totalValue (get (weights b) (fst tr))))
                   (get prices (fst tr)) \<Longrightarrow>
           P (Order (SellCtx cv (js_mul totalValue (get (weights b) (fst tr))))
                (fst tr) (baseToken b) amt)"
    and "\<And>m. P (Updated SellPhase m)"
  shows "grows P st (sell_trade b w prices totalValue st tr)"
proof (cases rule: sell_trade_cases[where b = b and prices = prices and totalValue = totalValue
      and st = st and tr = tr and w = w])
  case skipped
  then show ?thesis using assms(1) by (intro growsI[OF skipped(3)]) simp
next
  case failed
  then show ?thesis using assms(1,2) by (intro growsI[OF failed(3)]) simp
next
  case rejected
  then show ?thesis using assms(1,2,3) by (intro growsI[OF rejected(5)]) simp
next
  case sold
  then show ?thesis using assms by (intro growsI[OF sold(5)]) simp
qed

lemma buy_trade_grows:
  assumes "P (Processing BuyPhase (fst tr))"
    and "\<And>needed amt ok. fst tr \<noteq> baseToken b \<Longrightarrow> js_ge amt (Num (1 / 10000)) \<Longrightarrow>
           (ok \<Longrightarrow> js_finite amt) \<Longrightarrow>
           P (SwapCall (BuyCtx needed) (baseToken b) (fst tr) amt ok)"
    and "\<And>needed amt. fst tr \<noteq> baseToken b \<Longrightarrow> js_ge amt (Num (1 / 10000)) \<Longrightarrow> js_finite amt \<Longrightarrow>
           P (Order (BuyCtx needed) (baseToken b) (fst tr) amt)"
    and "\<And>m. P (Updated BuyPhase m)"
  shows "grows P st (buy_trade b w prices totalValue st tr)"
proof (cases rule: buy_trade_cases[where b = b and prices = prices and totalValue = totalValue
      and st = st and tr = tr and w = w])
  case base
  then show ?thesis using assms(1) by (intro growsI[OF base(3)]) simp
next
  case skipped
  then show ?thesis using assms(1) by (intro growsI[OF skipped(4)]) simp
next
  case failed
  then show ?thesis using assms(1,2) by (intro growsI[OF failed(5)]) simp
next
  case rejected
  then show ?thesis using assms(1,2,3) by (intro growsI[OF rejected(6)]) simp
next
  case bought
  then show ?thesis using assms by (intro growsI[OF bought(6)]) simp
qed

lemma deficit_loop_grows:
  assumes "\<And>rem. js_le rem (Num 1) \<Longrightarrow> P (DeficitEnough rem)"
    and "\<And>ow rem. ow \<in> set cands \<Longrightarrow> \<not> js_le rem (Num 1) \<Longrightarrow>
           \<not> js_gt (js_min (ow_excessValue ow) rem) (minTradeUSD b) \<Longrightarrow>
           P (DeficitSkip (ow_token ow) (ow_excessValue ow) rem (js_min (ow_excessValue ow) rem))"
    and "\<And>ow rem ok. ow \<in> set cands \<Longrightarrow> \<not> js_le rem (Num 1) \<Longrightarrow>
           js_gt (js_min (ow_excessValue ow) rem) (minTradeUSD b) \<Longrightarrow>
           P (SwapCall (DeficitCtx (ow_excessValue ow) rem (js_min (ow_excessValue ow) rem))
                (ow_token ow) (baseToken b)
                (js_div (js_min (ow_excessValue ow) rem) (get prices (ow_token ow))) ok)"
    and "\<And>ow rem. ow \<in> set cands \<Longrightarrow> \<not> js_le rem (Num 1) \<Longrightarrow>
           js_gt (js_min (ow_excessValue ow) rem) (minTradeUSD b) \<Longrightarrow>
           ow_token ow \<noteq> baseToken b \<Longrightarrow>
           js_finite (js_div (js_min (ow_excessValue ow) rem) (get prices (ow_token ow))) \<Longrightarrow>
           P (Order (DeficitCtx (ow_excessValue ow) rem (js_min (ow_excessValue ow) rem))
                (ow_token ow) (baseToken b)
                (js_div (js_min (ow_excessValue ow) rem) (get prices (ow_token ow))))"
    and "\<And>m. P (Updated DeficitPhase m)"
  shows "grows P st (deficit_loop b w prices rem st cands)"
  using assms(2,3,4)
proof (induction cands arbitrary: rem st)
  case Nil
  show ?case by (simp add: grows_refl)
next
  case (Cons ow rest)
  have IH: "\<And>rem st. grows P st (deficit_loop b w prices rem st rest)"
    using Cons by simp
  show ?case
  proof (cases rule: deficit_loop_cases[where b = b and prices = prices and rem = rem
        and st = st and ow = ow and rest = rest and w = w])
    case enough
    then show ?thesis using assms(1) by (intro growsI[OF enough(3)]) simp
  next
    case skip
    have "grows P st (emit (DeficitSkip (ow_token ow) (ow_excessValue ow) rem
                              (js_min (ow_excessValue ow) rem)) st)"
      using skip Cons.prems(1)[of ow rem] by (intro grows_emit) simp
    then show ?thesis using skip(3) IH grows_trans by metis
  next
    case (failed st1)
    have "grows P st st1"
      using failed Cons.prems(2)[of ow rem False] by (intro growsI[OF failed(4)]) simp
    then show ?thesis using failed(5) IH grows_trans by metis
  next
    case (rejected st1)
    have "grows P st st1"
      using rejected Cons.prems(2)[of ow rem False] Cons.prems(3)[of ow rem]
      by (intro growsI[OF rejected(6)]) simp
    then show ?thesis using rejected(7) IH grows_trans by metis
  next
    case (sold st1)
    have "grows P st st1"
      using sold Cons.prems(2)[of ow rem True] Cons.prems(3)[of ow rem] assms(5)
      by (intro growsI[OF sold(6)]) simp
    then show ?thesis using sold(7) IH grows_trans by metis
  qed
qed

section \<open>Lemmas on a whole pass\<close>

lemma deficit_phase_grows:
  assumes "P (Processing DeficitPhase (baseToken b))"
    and "\<And>st cands. grows P st (deficit_loop b w prices (neededWethValue b prices totalValue (bal st)) st cands)"
  shows "grows P st (deficit_phase b w cw prices totalValue st buys)"
proof (cases "find (\<lambda>t. fst t = baseToken b) buys")
  case None
  then show ?thesis by (simp add: deficit_phase_def grows_refl)
next
  case (Some a)
  let ?st0 = "emit (Processing DeficitPhase (baseToken b)) st"
  have "grows P st ?st0" using assms(1) by (rule grows_emit)
  moreover have "grows P ?st0 (deficit_loop b w prices (neededWethValue b prices totalValue (bal ?st0)) ?st0
       (overweightTokens b cw (bal ?st0) prices totalValue))"
    using assms(2) by blast
  ultimately show ?thesis using Some grows_trans by (fastforce simp: deficit_phase_def Let_def)
qed

lemma rebalance_unfold:
  "rebalance b w cw balances prices =
     (if trade_intents b cw balances prices = []
      then \<lparr>bal = balances, answered = 0, trace = []\<rparr>
      else buy_phase b w prices (rebalance_totalValue balances prices)
             (deficit_phase b w cw prices (rebalance_totalValue balances prices)
                (sell_phase b w prices (rebalance_totalValue balances prices)
                   \<lparr>bal = balances, answered = 0, trace = []\<rparr>
                   (sellTrades (trade_intents b cw balances prices)))
                (buyTrades (trade_intents b cw balances prices)))
             (buyTrades (trade_intents b cw balances prices)))"
  by (simp add: rebalance_def Let_def)

lemma rebalance_grows:
  assumes "\<And>st tr. tr \<in> set (sellTrades (trade_intents b cw balances prices)) \<Longrightarrow>
             grows P st (sell_trade b w prices (rebalance_totalValue balances prices) st tr)"
    and "\<And>st. grows P st (deficit_phase b w cw prices (rebalance_totalValue balances prices) st
                             (buyTrades (trade_intents b cw balances prices)))"
    and "\<And>st tr. tr \<in> set (buyTrades (trade_intents b cw balances prices)) \<Longrightarrow>
             grows P st (buy_trade b w prices (rebalance_totalValue balances prices) st tr)"
  shows "list_all P (trace (rebalance b w cw balances prices))"
proof (cases "trade_intents b cw balances prices = []")
  case True
  then show ?thesis by (simp add: rebalance_unfold)
next
  case False
  let ?T = "rebalance_totalValue balances prices"
  let ?st0 = "\<lparr>bal = balances, answered = 0, trace = []\<rparr>"
  let ?st1 = "sell_phase b w prices ?T ?st0 (sellTrades (trade_intents b cw balances prices))"
  let ?st2 = "deficit_phase b w cw prices ?T ?st1 (buyTrades (trade_intents b cw balances prices))"
  let ?st3 = "buy_phase b w prices ?T ?st2 (buyTrades (trade_intents b cw balances prices))"
  have "grows P ?st0 ?st1" unfolding sell_phase_def using assms(1) by (intro grows_foldl) simp
  moreover have "grows P ?st1 ?st2" using assms(2) by simp
  moreover have "grows P ?st2 ?st3" unfolding buy_phase_def using assms(3) by (intro grows_foldl) simp
  ultimately have "grows P ?st0 ?st3" using grows_trans by blast
  then have "list_all P (trace ?st3)" by (intro grows_from_empty[of ?st0]) simp_all
  then show ?thesis using False by (simp add: rebalance_unfold)
qed

lemma processed_none: "list_all (\<lambda>e. \<forall>t. e \<noteq> Processing ph t) evs \<Longrightarrow> processed ph evs = []"
  by (induction ph evs rule: processed.induct) auto

lemma processed_sell_trade:
  "processed ph (trace (sell_trade b w prices totalValue st tr)) =
     processed ph (trace st) @ (if ph = SellPhase then [fst tr] else [])"
  by (cases rule: sell_trade_cases[where b = b and prices = prices and totalValue = totalValue
        and st = st and tr = tr and w = w]) (simp_all add: processed_append)

lemma processed_sell_phase:
  "processed ph (trace (sell_phase b w prices totalValue st trs)) =
     processed ph (trace st) @ (if ph = SellPhase then map fst trs else [])"
  unfolding sell_phase_def
  by (induction trs arbitrary: st) (simp_all add: processed_sell_trade)

lemma processed_buy_trade:
  "processed ph (trace (buy_trade b w prices totalValue st tr)) =
     processed ph (trace st) @ (if ph = BuyPhase then [fst tr] else [])"
  by (cases rule: buy_trade_cases[where b = b and prices = prices and totalValue = totalValue
        and st = st and tr = tr and w = w]) (simp_all add: processed_append)

lemma processed_buy_phase:
  "processed ph (trace (buy_phase b w prices totalValue st trs)) =
     processed ph (trace st) @ (if ph = BuyPhase then map fst trs else [])"
  unfolding buy_phase_def
  by (induction trs arbitrary: st) (simp_all add: processed_buy_trade)

lemma processed_deficit_loop:
  "processed ph (trace (deficit_loop b w prices rem st cands)) = processed ph (trace st)"
proof -
  have "grows (\<lambda>e. \<forall>t. e \<noteq> Processing ph t) st (deficit_loop b w prices rem st cands)"
    by (rule deficit_loop_grows) simp_all
  then show ?thesis
    unfolding grows_def by (auto simp: processed_append processed_none)
qed

lemma processed_deficit_phase:
  "ph \<noteq> DeficitPhase \<Longrightarrow>
   processed ph (trace (deficit_phase b w cw prices totalValue st buys)) = processed ph (trace st)"
  by (simp add: deficit_phase_def Let_def processed_deficit_loop emit_def processed_append
      split: option.splits)

lemma processed_rebalance:
  "processed SellPhase (trace (rebalance b w cw balances prices)) =
     map fst (sellTrades (trade_intents b cw balances prices))"
  "processed BuyPhase (trace (rebalance b w cw balances prices)) =
     map fst (buyTrades (trade_intents b cw balances prices))"
  by (simp_all add: rebalance_unfold processed_buy_phase processed_deficit_phase
      processed_sell_phase sellTrades_def buyTrades_def js_sort_def)

lemma phase_split:
  obtains e1 e2 e3 where "trace (rebalance b w cw balances prices) = e1 @ e2 @ e3"
    "list_all (\<lambda>e. ev_phase e = SellPhase) e1"
    "list_all (\<lambda>e. ev_phase e = DeficitPhase) e2"
    "list_all (\<lambda>e. ev_phase e = BuyPhase) e3"
proof (cases "trade_intents b cw balances prices = []")
  case True
  then show ?thesis using that[of "[]" "[]" "[]"] by (simp add: rebalance_unfold)
next
  case False
  let ?T = "rebalance_totalValue balances prices"
  let ?st0 = "\<lparr>bal = balances, answered = 0, trace = []\<rparr>"
  let ?st1 = "sell_phase b w prices ?T ?st0 (sellTrades (trade_intents b cw balances prices))"
  let ?st2 = "deficit_phase b w cw prices ?T ?st1 (buyTrades (trade_intents b cw balances prices))"
  let ?st3 = "buy_phase b w prices ?T ?st2 (buyTrades (trade_intents b cw balances prices))"
  have 1: "grows (\<lambda>e. ev_phase e = SellPhase) ?st0 ?st1"
    unfolding sell_phase_def by (intro grows_foldl sell_trade_grows) simp_all
  have 2: "grows (\<lambda>e. ev_phase e = DeficitPhase) ?st1 ?st2"
    by (intro deficit_phase_grows deficit_loop_grows) simp_all
  have 3: "grows (\<lambda>e. ev_phase e = BuyPhase) ?st2 ?st3"
    unfolding buy_phase_def by (intro grows_foldl buy_trade_grows) simp_all
  from 1 obtain e1 where e1: "trace ?st1 = e1" "list_all (\<lambda>e. ev_phase e = SellPhase) e1"
    unfolding grows_def by auto
  from 2 obtain e2 where e2: "trace ?st2 = trace ?st1 @ e2"
    "list_all (\<lambda>e. ev_phase e = DeficitPhase) e2"
    unfolding grows_def by blast
  from 3 obtain e3 where e3: "trace ?st3 = trace ?st2 @ e3"
    "list_all (\<lambda>e. ev_phase e = BuyPhase) e3"
    unfolding grows_def by blast
  have "trace ?st3 = e1 @ e2 @ e3" using e1(1) e2(1) e3(1) by simp
  then have "trace (rebalance b w cw balances prices) = e1 @ e2 @ e3"
    using False by (simp only: rebalance_unfold if_False)
  then show ?thesis using that e1(2) e2(2) e3(2) by blast
qed

lemma same_phase_sorted:
  "list_all (\<lambda>e. ev_phase e = ph) es \<Longrightarrow>
   sorted_wrt (\<lambda>e e'. phase_rank (ev_phase e) \<le> phase_rank (ev_phase e')) es"
  by (induction es) (auto simp: list_all_iff)

lemma phases_in_order:
  "sorted_wrt (\<lambda>e e'. phase_rank (ev_phase e) \<le> phase_rank (ev_phase e'))
     (trace (rebalance b w cw balances prices))"
proof -
  obtain e1 e2 e3 where "trace (rebalance b w cw balances prices) = e1 @ e2 @ e3"
    "list_all (\<lambda>e. ev_phase e = SellPhase) e1"
    "list_all (\<lambda>e. ev_phase e = DeficitPhase) e2"
    "list_all (\<lambda>e. ev_phase e = BuyPhase) e3"
    by (rule phase_split)
  then show ?thesis
    using same_phase_sorted[of SellPhase e1] same_phase_sorted[of DeficitPhase e2]
      same_phase_sorted[of BuyPhase e3]
    by (simp add: sorted_wrt_append list_all_iff)
qed

lemma swap_directions:
  "list_all (swap_direction_ok (baseToken b)) (trace (rebalance b w cw balances prices))"
  by (intro rebalance_grows sell_trade_grows buy_trade_grows deficit_phase_grows
      deficit_loop_grows) simp_all

section \<open>The first example\<close>

lemma ex1_weights:
  "calculateWeights ex1_balances ex1_prices =
     [(''B'', Num (23 / 100)), (''WETH'', Num (3 / 20)), (''A'', Num (2 / 5)),
      (''C'', Num (11 / 50))]"
  by (simp add: calculateWeights_def weights_totalValue_def ex1_balances_def ex1_prices_def
      keys_def get_def token_value_def js_or0_def js_falsy_def)

lemma ex1_intents:
  "trade_intents ex1_bot (calculateWeights ex1_balances ex1_prices) ex1_balances ex1_prices =
     [(''B'', Num (3 / 100)), (''WETH'', Num (- (1 / 20))), (''A'', Num (1 / 10)),
      (''C'', Num (- (2 / 25)))]"
  unfolding ex1_weights
  by (simp add: trade_intents_def ex1_bot_def bot_of_def ex1_balances_def ex1_prices_def
      keys_def get_def deviation_def js_sub_def js_gt_def rebalance_totalValue_def Let_def)

lemma ex1_sells:
  "sellTrades [(''B'', Num (3 / 100)), (''WETH'', Num (- (1 / 20))), (''A'', Num (1 / 10)),
               (''C'', Num (- (2 / 25)))]
   = [(''A'', Num (1 / 10)), (''B'', Num (3 / 100))]"
  by (simp add: sellTrades_def js_sort_def js_gt_def js_sub_def)

lemma ex1_buys:
  "buyTrades [(''B'', Num (3 / 100)), (''WETH'', Num (- (1 / 20))), (''A'', Num (1 / 10)),
              (''C'', Num (- (2 / 25)))]
   = [(''C'', Num (- (2 / 25))), (''WETH'', Num (- (1 / 20)))]"
  by (simp add: buyTrades_def js_sort_def js_gt_def js_sub_def)

section \<open>Order of the trades\<close>

text \<open>
  Claim C5.  In every pass the \<^verbatim>\<open>Processing SELL\<close> lines are those of the intents with
  a positive deviation, in descending order of deviation, and the
  \<^verbatim>\<open>Processing BUY\<close> lines those of the intents with a negative deviation, in
  ascending order of deviation.  In the trace every event of the sell phase comes before
  every event of the deficit phase, and these before every event of the buy phase (so
  no buy is processed before the sells and the deficit phase are over).  Every swap call
  of the buy phase sells the base token and buys another token: the base token is never
  bought with itself.
\<close>

theorem planner_order:
  "processed SellPhase (trace (rebalance b w currentWeights balances prices))
     = map fst (sellTrades (trade_intents b currentWeights balances prices))
   \<and> sorted_wrt (\<lambda>x y. js_ge (snd x) (snd y))
        (sellTrades (trade_intents b currentWeights balances prices))
   \<and> mset (sellTrades (trade_intents b currentWeights balances prices))
     = mset (filter (\<lambda>t. js_gt (snd t) (Num 0)) (trade_intents b currentWeights balances prices))
   \<and> processed BuyPhase (trace (rebalance b w currentWeights balances prices))
     = map fst (buyTrades (trade_intents b currentWeights balances prices))
   \<and> sorted_wrt (\<lambda>x y. js_le (snd x) (snd y))
        (buyTrades (trade_intents b currentWeights balances prices))
   \<and> mset (buyTrades (trade_intents b currentWeights balances prices))
     = mset (filter (\<lambda>t. js_lt (snd t) (Num 0)) (trade_intents b currentWeights balances prices))
   \<and> sorted_wrt (\<lambda>e e'. phase_rank (ev_phase e) \<le> phase_rank (ev_phase e'))
        (trace (rebalance b w currentWeights balances prices))
   \<and> list_all (swap_direction_ok (baseToken b))
        (trace (rebalance b w currentWeights balances prices))"
  using processed_rebalance[of b w currentWeights balances prices]
    sellTrades_sorted buyTrades_sorted mset_sellTrades mset_buyTrades
    phases_in_order[of b w currentWeights balances prices]
    swap_directions[of b w currentWeights balances prices]
  by (intro conjI) blast+

text \<open>
  In the first example the sells are processed in the order A, B and the buys in the
  order C, base token, whatever the settlement API answers.
\<close>

theorem planner_order_witness:
  "processed SellPhase (trace (rebalance_pass ex1_bot rejecting_first ex1_balances ex1_prices))
     = [''A'', ''B'']
   \<and> processed BuyPhase (trace (rebalance_pass ex1_bot rejecting_first ex1_balances ex1_prices))
     = [''C'', ''WETH'']
   \<and> list_all (swap_direction_ok ''WETH'')
        (trace (rebalance_pass ex1_bot rejecting_first ex1_balances ex1_prices))"
proof -
  have b: "baseToken ex1_bot = ''WETH''" by (simp add: ex1_bot_def bot_of_def)
  show ?thesis
    using planner_order[of ex1_bot rejecting_first "calculateWeights ex1_balances ex1_prices"
        ex1_balances ex1_prices]
    unfolding rebalance_pass_def ex1_intents ex1_sells ex1_buys b by simp
qed

section \<open>Sell orders\<close>

text \<open>
  Claim C7, as amended.  In every pass, an order of the sell phase, and every swap call
  of the sell phase that returned true, sells a token of the sell set that is not the
  base token, buys the base token, and has as amount the sell amount
  (current value - target value) / price, which is at least the dust floor 0.00001 (the
  test of the code is \<^verbatim>\<open>>=\<close>).  No order of any phase has the same sell and buy
  token.
\<close>

theorem sell_orders_guarded:
  "\<forall>e \<in> set (trace (rebalance b w currentWeights balances prices)).
      (\<forall>cv tv f t a.
          e = Order (SellCtx cv tv) f t a \<or> e = SwapCall (SellCtx cv tv) f t a True \<longrightarrow>
            f \<in> fst ` set (sellTrades (trade_intents b currentWeights balances prices))
            \<and> f \<noteq> baseToken b \<and> t = baseToken b
            \<and> tv = js_mul (rebalance_totalValue balances prices) (get (weights b) f)
            \<and> a = js_div (js_sub cv tv) (get prices f)
            \<and> js_ge a (Num (1 / 100000)))
      \<and> (\<forall>ctx f t a. e = Order ctx f t a \<longrightarrow> f \<noteq> t)"
proof -
  let ?P = "\<lambda>e. (\<forall>cv tv f t a.
          e = Order (SellCtx cv tv) f t a \<or> e = SwapCall (SellCtx cv tv) f t a True \<longrightarrow>
            f \<in> fst ` set (sellTrades (trade_intents b currentWeights balances prices))
            \<and> f \<noteq> baseToken b \<and> t = baseToken b
            \<and> tv = js_mul (rebalance_totalValue balances prices) (get (weights b) f)
            \<and> a = js_div (js_sub cv tv) (get prices f)
            \<and> js_ge a (Num (1 / 100000)))
      \<and> (\<forall>ctx f t a. e = Order ctx f t a \<longrightarrow> f \<noteq> t)"
  have "list_all ?P (trace (rebalance b w currentWeights balances prices))"
  proof (intro rebalance_grows sell_trade_grows buy_trade_grows deficit_phase_grows
      deficit_loop_grows, goal_cases)
    case (1 st tr)
    then show ?case by simp
  next
    case (2 st tr cv amt ok)
    then show ?case by auto
  next
    case (3 st tr cv amt)
    then show ?case by auto
  qed simp_all
  then show ?thesis by (simp only: list_all_iff)
qed

lemma ex3_weights:
  "calculateWeights ex3_balances ex3_prices = [(''A'', Num 1), (''WETH'', Num 0)]"
  by (simp add: calculateWeights_def weights_totalValue_def ex3_balances_def ex3_prices_def
      keys_def get_def token_value_def js_or0_def js_falsy_def)

lemma ex3_intents:
  "trade_intents ex3_bot (calculateWeights ex3_balances ex3_prices) ex3_balances ex3_prices =
     [(''A'', Num 1), (''WETH'', Num (- 1))]"
  unfolding ex3_weights
  by (simp add: trade_intents_def ex3_bot_def bot_of_def ex3_balances_def ex3_prices_def
      keys_def get_def deviation_def js_sub_def js_gt_def rebalance_totalValue_def Let_def)

lemma ex3_sells: "sellTrades [(''A'', Num 1), (''WETH'', Num (- 1))] = [(''A'', Num 1)]"
  by (simp add: sellTrades_def js_sort_def js_gt_def js_sub_def)

lemma ex3_buys: "buyTrades [(''A'', Num 1), (''WETH'', Num (- 1))] = [(''WETH'', Num (- 1))]"
  by (simp add: buyTrades_def js_sort_def js_gt_def js_sub_def)

lemma ex3_pass:
  "rebalance_pass ex3_bot accepting ex3_balances ex3_prices =
     \<lparr>bal = [(''A'', Num 0), (''WETH'', Num (49 / 5000000))],
      answered = 1,
      trace =
        [Processing SellPhase ''A'',
         Order (SellCtx (Num (1 / 100000)) (Num 0)) ''A'' ''WETH'' (Num (1 / 100000)),
         SwapCall (SellCtx (Num (1 / 100000)) (Num 0)) ''A'' ''WETH'' (Num (1 / 100000)) True,
         Updated SellPhase [(''A'', Num 0), (''WETH'', Num (49 / 5000000))],
         Processing DeficitPhase ''WETH'',
         DeficitEnough (Num (1 / 5000000)),
         Processing BuyPhase ''WETH'']\<rparr>"
  apply (simp only: rebalance_pass_def rebalance_unfold ex3_intents ex3_sells ex3_buys)
  apply (simp only: ex3_weights)
  by (simp add: ex3_bot_def bot_of_def ex3_balances_def ex3_prices_def accepting_def
      rebalance_totalValue_def keys_def get_def put_def
      sell_phase_def sell_trade_def swap_def emit_def Let_def js_ge_def js_sub_def
      deficit_phase_def neededWethValue_def overweightTokens_def deviation_def js_gt_def
      js_sort_def buy_phase_def buy_trade_def js_min_def)

text \<open>
  In the boundary example token A is in the sell set and its order is among the events
  of the pass, as the theorem says; its amount is the dust floor itself.
\<close>

theorem sell_orders_witness:
  "Order (SellCtx (Num (1 / 100000)) (Num 0)) ''A'' ''WETH'' (Num (1 / 100000))
     \<in> set (trace (rebalance_pass ex3_bot accepting ex3_balances ex3_prices))
   \<and> ''A'' \<in> fst ` set (sellTrades (trade_intents ex3_bot
        (calculateWeights ex3_balances ex3_prices) ex3_balances ex3_prices))
   \<and> ''A'' \<noteq> baseToken ex3_bot
   \<and> js_ge (Num (1 / 100000)) (Num (1 / 100000))"
proof -
  have m: "Order (SellCtx (Num (1 / 100000)) (Num 0)) ''A'' ''WETH'' (Num (1 / 100000))
     \<in> set (trace (rebalance_pass ex3_bot accepting ex3_balances ex3_prices))"
    by (simp add: ex3_pass)
  then show ?thesis
    using sell_orders_guarded[of ex3_bot accepting "calculateWeights ex3_balances ex3_prices"
        ex3_balances ex3_prices]
    unfolding rebalance_pass_def by blast
qed

text \<open>
  Claim C7 as stated fails at the boundary: in this pass a sell order is posted, and the
  swap succeeds, with a sell amount that equals the dust floor and so does not exceed it.
\<close>

theorem sell_at_dust_floor_counterexample:
  "Order (SellCtx (Num (1 / 100000)) (Num 0)) ''A'' ''WETH'' (Num (1 / 100000))
     \<in> set (trace (rebalance_pass ex3_bot accepting ex3_balances ex3_prices))
   \<and> SwapCall (SellCtx (Num (1 / 100000)) (Num 0)) ''A'' ''WETH'' (Num (1 / 100000)) True
     \<in> set (trace (rebalance_pass ex3_bot accepting ex3_balances ex3_prices))
   \<and> js_div (js_sub (Num (1 / 100000)) (Num 0)) (get ex3_prices ''A'') = Num (1 / 100000)
   \<and> \<not> js_gt (Num (1 / 100000)) (Num (1 / 100000))"
proof -
  have "js_div (js_sub (Num (1 / 100000)) (Num 0)) (get ex3_prices ''A'') = Num (1 / 100000)"
    by (simp add: js_sub_def get_def ex3_prices_def)
  moreover have "\<not> js_gt (Num (1 / 100000)) (Num (1 / 100000))"
    by (simp add: js_gt_def)
  ultimately show ?thesis by (simp add: ex3_pass)
qed

section \<open>Failed swaps\<close>

lemma quietI:
  "trace st' = trace st @ evs \<Longrightarrow> list_ex succeeded evs \<or> bal st' = bal st \<Longrightarrow> quiet st st'"
  unfolding quiet_def by blast

lemma quiet_refl: "quiet st st"
  unfolding quiet_def by simp

lemma quiet_trans: "quiet st st' \<Longrightarrow> quiet st' st'' \<Longrightarrow> quiet st st''"
  unfolding quiet_def by auto

lemma quiet_foldl:
  assumes "\<And>s x. quiet s (f s x)"
  shows "quiet st (foldl f st xs)"
proof (induction xs arbitrary: st)
  case Nil
  show ?case by (simp add: quiet_refl)
next
  case (Cons x xs)
  show ?case using assms[of st x] Cons[of "f st x"] quiet_trans by fastforce
qed

lemma quiet_new_events:
  "quiet st st' \<Longrightarrow> \<not> list_ex succeeded (new_events st st') \<Longrightarrow> bal st' = bal st"
  unfolding quiet_def new_events_def by auto

lemma quiet_sell_trade: "quiet st (sell_trade b w prices totalValue st tr)"
  by (cases rule: sell_trade_cases[where b = b and prices = prices and totalValue = totalValue
        and st = st and tr = tr and w = w])
     (erule quietI, simp)+

lemma quiet_buy_trade: "quiet st (buy_trade b w prices totalValue st tr)"
  by (cases rule: buy_trade_cases[where b = b and prices = prices and totalValue = totalValue
        and st = st and tr = tr and w = w])
     (erule quietI, simp)+

lemma quiet_deficit_loop: "quiet st (deficit_loop b w prices rem st cands)"
proof (induction cands arbitrary: rem st)
  case Nil
  show ?case by (simp add: quiet_refl)
next
  case (Cons ow rest)
  show ?case
  proof (cases rule: deficit_loop_cases[where b = b and prices = prices and rem = rem
        and st = st and ow = ow and rest = rest and w = w])
    case enough
    then show ?thesis by (intro quietI[OF enough(3)]) simp
  next
    case skip
    have "quiet st (emit (DeficitSkip (ow_token ow) (ow_excessValue ow) rem
                            (js_min (ow_excessValue ow) rem)) st)"
      by (rule quietI[where evs = "[DeficitSkip (ow_token ow) (ow_excessValue ow) rem
                            (js_min (ow_excessValue ow) rem)]"]) (simp_all add: emit_def)
    then show ?thesis using skip(3) Cons quiet_trans by metis
  next
    case (failed st1)
    have "quiet st st1" using failed(3) by (intro quietI[OF failed(4)]) simp
    then show ?thesis using failed(5) Cons quiet_trans by metis
  next
    case (rejected st1)
    have "quiet st st1" using rejected(5) by (intro quietI[OF rejected(6)]) simp
    then show ?thesis using rejected(7) Cons quiet_trans by metis
  next
    case (sold st1)
    have "quiet st st1" by (intro quietI[OF sold(6)]) simp
    then show ?thesis using sold(7) Cons quiet_trans by metis
  qed
qed

lemma quiet_deficit_phase: "quiet st (deficit_phase b w cw prices totalValue st buys)"
proof (cases "find (\<lambda>t. fst t = baseToken b) buys")
  case None
  then show ?thesis by (simp add: deficit_phase_def quiet_refl)
next
  case (Some a)
  let ?st0 = "emit (Processing DeficitPhase (baseToken b)) st"
  have "quiet st ?st0"
    by (rule quietI[where evs = "[Processing DeficitPhase (baseToken b)]"]) (simp_all add: emit_def)
  then show ?thesis
    using Some quiet_deficit_loop quiet_trans by (fastforce simp: deficit_phase_def Let_def)
qed

lemma quiet_rebalance:
  "quiet \<lparr>bal = balances, answered = 0, trace = []\<rparr> (rebalance b w cw balances prices)"
proof (cases "trade_intents b cw balances prices = []")
  case True
  then show ?thesis by (simp add: rebalance_unfold quiet_refl)
next
  case False
  let ?T = "rebalance_totalValue balances prices"
  let ?st0 = "\<lparr>bal = balances, answered = 0, trace = []\<rparr>"
  let ?st1 = "sell_phase b w prices ?T ?st0 (sellTrades (trade_intents b cw balances prices))"
  let ?st2 = "deficit_phase b w cw prices ?T ?st1 (buyTrades (trade_intents b cw balances prices))"
  let ?st3 = "buy_phase b w prices ?T ?st2 (buyTrades (trade_intents b cw balances prices))"
  have "quiet ?st0 ?st1" unfolding sell_phase_def by (intro quiet_foldl quiet_sell_trade)
  moreover have "quiet ?st1 ?st2" by (rule quiet_deficit_phase)
  moreover have "quiet ?st2 ?st3" unfolding buy_phase_def by (intro quiet_foldl quiet_buy_trade)
  ultimately have "quiet ?st0 ?st3" using quiet_trans by blast
  then show ?thesis using False by (simp only: rebalance_unfold if_False)
qed

lemma swap_keeps_balances: "bal (snd (swap w ctx st f t a)) = bal st"
  by (cases rule: swap_cases[where f = f and t = t and w = w and ctx = ctx and st = st and a = a])
     simp_all

lemma deficit_sale_failed:
  assumes "\<not> js_le rem (Num 1)" "js_gt (js_min (ow_excessValue ow) rem) (minTradeUSD b)"
    and "\<not> fst (deficit_swap b w prices rem st ow)"
  shows "deficit_loop b w prices rem st (ow # rest)
           = deficit_loop b w prices rem (snd (deficit_swap b w prices rem st ow)) rest"
proof -
  let ?v = "js_min (ow_excessValue ow) rem"
  let ?sw = "swap w (DeficitCtx (ow_excessValue ow) rem ?v) st (ow_token ow) (baseToken b)
               (js_div ?v (get prices (ow_token ow)))"
  have d: "deficit_swap b w prices rem st ow = ?sw" by (simp add: deficit_swap_def Let_def)
  obtain ok st1 where sw: "?sw = (ok, st1)" by (cases ?sw)
  then have "\<not> ok" using assms(3) d by simp
  then show ?thesis using assms(1,2) sw d by (simp add: Let_def)
qed

text \<open>
  Claim C9.  A sell trade and a buy trade leave the in-memory balance map as it was
  unless their swap call returned true (calls of \<^verbatim>\<open>swap\<close> do not throw: every
  failure inside it comes back as false).  In the deficit phase, when the swap call for
  a candidate returns false, the loop goes on to the next candidate with the balance
  map and the remaining need that it had, whatever was sold before.  The deficit phase
  and the whole pass leave the balance map as it was unless one of their swap calls
  returned true.  And whatever the swaps return, every trade of the sell set and of the
  buy set is processed.
\<close>

theorem failed_swap_leaves_balances:
  "(\<not> list_ex succeeded (new_events st (sell_trade b w prices totalValue st tr))
      \<longrightarrow> bal (sell_trade b w prices totalValue st tr) = bal st)
   \<and> (\<not> list_ex succeeded (new_events st (buy_trade b w prices totalValue st tr))
      \<longrightarrow> bal (buy_trade b w prices totalValue st tr) = bal st)
   \<and> (\<not> js_le rem (Num 1) \<and> js_gt (js_min (ow_excessValue ow) rem) (minTradeUSD b)
        \<and> \<not> fst (deficit_swap b w prices rem st ow)
      \<longrightarrow> bal (snd (deficit_swap b w prices rem st ow)) = bal st
          \<and> deficit_loop b w prices rem st (ow # rest)
              = deficit_loop b w prices rem (snd (deficit_swap b w prices rem st ow)) rest)
   \<and> (\<not> list_ex succeeded (new_events st (deficit_phase b w currentWeights prices totalValue st buys))
      \<longrightarrow> bal (deficit_phase b w currentWeights prices totalValue st buys) = bal st)
   \<and> (\<not> list_ex succeeded (trace (rebalance b w currentWeights balances prices))
      \<longrightarrow> bal (rebalance b w currentWeights balances prices) = balances)
   \<and> processed SellPhase (trace (rebalance b w currentWeights balances prices))
       = map fst (sellTrades (trade_intents b currentWeights balances prices))
   \<and> processed BuyPhase (trace (rebalance b w currentWeights balances prices))
       = map fst (buyTrades (trade_intents b currentWeights balances prices))"
proof (intro conjI impI)
  assume "\<not> list_ex succeeded (new_events st (sell_trade b w prices totalValue st tr))"
  then show "bal (sell_trade b w prices totalValue st tr) = bal st"
    using quiet_sell_trade by (rule quiet_new_events[rotated])
next
  assume "\<not> list_ex succeeded (new_events st (buy_trade b w prices totalValue st tr))"
  then show "bal (buy_trade b w prices totalValue st tr) = bal st"
    using quiet_buy_trade by (rule quiet_new_events[rotated])
next
  show "bal (snd (deficit_swap b w prices rem st ow)) = bal st"
    by (simp add: deficit_swap_def Let_def swap_keeps_balances)
next
  assume "\<not> js_le rem (Num 1) \<and> js_gt (js_min (ow_excessValue ow) rem) (minTradeUSD b)
        \<and> \<not> fst (deficit_swap b w prices rem st ow)"
  then show "deficit_loop b w prices rem st (ow # rest)
              = deficit_loop b w prices rem (snd (deficit_swap b w prices rem st ow)) rest"
    by (intro deficit_sale_failed) simp_all
next
  assume "\<not> list_ex succeeded
             (new_events st (deficit_phase b w currentWeights prices totalValue st buys))"
  then show "bal (deficit_phase b w currentWeights prices totalValue st buys) = bal st"
    using quiet_deficit_phase by (rule quiet_new_events[rotated])
next
  assume "\<not> list_ex succeeded (trace (rebalance b w currentWeights balances prices))"
  then show "bal (rebalance b w currentWeights balances prices) = balances"
    using quiet_rebalance[of balances b w currentWeights prices] unfolding quiet_def by auto
next
  show "processed SellPhase (trace (rebalance b w currentWeights balances prices))
       = map fst (sellTrades (trade_intents b currentWeights balances prices))"
    by (rule processed_rebalance)
next
  show "processed BuyPhase (trace (rebalance b w currentWeights balances prices))
       = map fst (buyTrades (trade_intents b currentWeights balances prices))"
    by (rule processed_rebalance)
qed


lemma ex1_rejected_sell:
  "trace (sell_trade ex1_bot rejecting_first ex1_prices (Num 100)
            \<lparr>bal = ex1_balances, answered = 0, trace = []\<rparr> (''A'', Num (1 / 10)))
   = [Processing SellPhase ''A'',
      Order (SellCtx (Num 40) (Num 30)) ''A'' ''WETH'' (Num 10),
      SwapCall (SellCtx (Num 40) (Num 30)) ''A'' ''WETH'' (Num 10) False]"
  by (simp add: sell_trade_def swap_def emit_def Let_def ex1_bot_def bot_of_def ex1_balances_def
      ex1_prices_def rejecting_first_def get_def js_sub_def js_ge_def)

text \<open>
  In the first example the settlement API rejects the first order, the sale of A: the
  swap call returns false, the balance map is as before, and B, C and the base token are
  still processed.  In the deficit example it rejects the second order: 40 of X have been
  sold, the sale of Y fails, and the loop goes on to V with the balance map that the
  sale of X left and a remaining need of 10.
\<close>

theorem failed_swap_witness:
  "\<not> list_ex succeeded
        (new_events \<lparr>bal = ex1_balances, answered = 0, trace = []\<rparr>
           (sell_trade ex1_bot rejecting_first ex1_prices (Num 100)
              \<lparr>bal = ex1_balances, answered = 0, trace = []\<rparr> (''A'', Num (1 / 10))))
   \<and> bal (sell_trade ex1_bot rejecting_first ex1_prices (Num 100)
              \<lparr>bal = ex1_balances, answered = 0, trace = []\<rparr> (''A'', Num (1 / 10)))
     = ex1_balances
   \<and> processed SellPhase (trace (rebalance_pass ex1_bot rejecting_first ex1_balances ex1_prices))
     = [''A'', ''B'']
   \<and> processed BuyPhase (trace (rebalance_pass ex1_bot rejecting_first ex1_balances ex1_prices))
     = [''C'', ''WETH'']
   \<and> \<not> fst (deficit_swap ex2_bot rejecting_second ex2_prices (Num 10)
              \<lparr>bal = [(''WETH'', Num (473 / 2500)), (''Y'', Num (115 / 2)), (''X'', Num 100),
                      (''V'', Num 205), (''Z'', Num 175)], answered = 1, trace = []\<rparr>
              \<lparr>ow_token = ''Y'', ow_diff = Num (3 / 100), ow_excessValue = Num 30,
               ow_currentValue = Num 230, ow_targetValue = Num 200\<rparr>)
   \<and> bal (snd (deficit_swap ex2_bot rejecting_second ex2_prices (Num 10)
              \<lparr>bal = [(''WETH'', Num (473 / 2500)), (''Y'', Num (115 / 2)), (''X'', Num 100),
                      (''V'', Num 205), (''Z'', Num 175)], answered = 1, trace = []\<rparr>
              \<lparr>ow_token = ''Y'', ow_diff = Num (3 / 100), ow_excessValue = Num 30,
               ow_currentValue = Num 230, ow_targetValue = Num 200\<rparr>))
     = [(''WETH'', Num (473 / 2500)), (''Y'', Num (115 / 2)), (''X'', Num 100),
        (''V'', Num 205), (''Z'', Num 175)]"
proof -
  let ?st = "\<lparr>bal = ex1_balances, answered = 0, trace = []\<rparr>"
  let ?b1 = "[(''WETH'', Num (473 / 2500)), (''Y'', Num (115 / 2)), (''X'', Num 100),
              (''V'', Num 205), (''Z'', Num 175)]"
  let ?st1 = "\<lparr>bal = ?b1, answered = 1, trace = []\<rparr>"
  let ?ow = "\<lparr>ow_token = ''Y'', ow_diff = Num (3 / 100), ow_excessValue = Num 30,
               ow_currentValue = Num 230, ow_targetValue = Num 200\<rparr>"
  have n: "\<not> list_ex succeeded
        (new_events ?st (sell_trade ex1_bot rejecting_first ex1_prices (Num 100) ?st
                           (''A'', Num (1 / 10))))"
    by (simp add: new_events_def ex1_rejected_sell)
  have u: "bal (sell_trade ex1_bot rejecting_first ex1_prices (Num 100) ?st (''A'', Num (1 / 10)))
           = ex1_balances"
    using n failed_swap_leaves_balances[of ?st ex1_bot rejecting_first ex1_prices "Num 100"
        "(''A'', Num (1 / 10))"]
    by simp
  have p: "processed SellPhase (trace (rebalance_pass ex1_bot rejecting_first ex1_balances ex1_prices))
             = [''A'', ''B'']
         \<and> processed BuyPhase (trace (rebalance_pass ex1_bot rejecting_first ex1_balances ex1_prices))
             = [''C'', ''WETH'']"
    using failed_swap_leaves_balances[of _ ex1_bot rejecting_first ex1_prices _ _ _ _ _
        "calculateWeights ex1_balances ex1_prices" _ ex1_balances]
    unfolding rebalance_pass_def ex1_intents ex1_sells ex1_buys by simp
  have g: "\<not> js_le (Num 10) (Num 1)"
    "js_gt (js_min (ow_excessValue ?ow) (Num 10)) (minTradeUSD ex2_bot)"
    by (simp_all add: js_min_def js_gt_def ex2_bot_def bot_of_def)
  have f: "\<not> fst (deficit_swap ex2_bot rejecting_second ex2_prices (Num 10) ?st1 ?ow)"
    by (simp add: deficit_swap_def swap_def emit_def Let_def rejecting_second_def
        ex2_bot_def bot_of_def ex2_prices_def get_def js_min_def)
  have d: "bal (snd (deficit_swap ex2_bot rejecting_second ex2_prices (Num 10) ?st1 ?ow)) = ?b1"
  proof -
    have "\<not> js_le (Num 10) (Num 1) \<and> js_gt (js_min (ow_excessValue ?ow) (Num 10)) (minTradeUSD ex2_bot)
        \<and> \<not> fst (deficit_swap ex2_bot rejecting_second ex2_prices (Num 10) ?st1 ?ow)
      \<longrightarrow> bal (snd (deficit_swap ex2_bot rejecting_second ex2_prices (Num 10) ?st1 ?ow)) = bal ?st1"
      using failed_swap_leaves_balances[where st = ?st1 and b = ex2_bot
        and w = rejecting_second and prices = ex2_prices and rem = "Num 10" and ow = ?ow]
      by blast
    then have "bal (snd (deficit_swap ex2_bot rejecting_second ex2_prices (Num 10) ?st1 ?ow)) = bal ?st1"
      using g f by blast
    then show ?thesis by simp
  qed
  show ?thesis using n u p f d by blast
qed

section \<open>Lemmas on maps\<close>

lemma get_put: "get (put m k v) k' = (if k' = k then v else get m k')"
  by (simp add: get_def put_def update_conv')

lemma keys_put: "k \<in> set (keys m) \<Longrightarrow> keys (put m k v) = keys m"
  by (simp add: keys_def put_def update_keys)

lemma nonneg_map_put:
  "nonneg_map m \<Longrightarrow> js_finite v \<Longrightarrow> 0 \<le> the_real v \<Longrightarrow> nonneg_map (put m k v)"
  unfolding nonneg_map_def put_def by (induction m) auto

lemma nonneg_map_get:
  "nonneg_map m \<Longrightarrow> k \<in> set (keys m) \<Longrightarrow> \<exists>r. get m k = Num r \<and> 0 \<le> r"
  unfolding nonneg_map_def keys_def get_def
  by (induction m) (auto simp: js_finite_iff)

lemma positive_on_get:
  "positive_on m ks \<Longrightarrow> k \<in> set ks \<Longrightarrow> \<exists>r. get m k = Num r \<and> 0 < r"
  unfolding positive_on_def by (auto simp: list_all_iff js_finite_iff)

lemma nonneg_on_get:
  "nonneg_on m ks \<Longrightarrow> k \<in> set ks \<Longrightarrow> \<exists>r. get m k = Num r \<and> 0 \<le> r"
  unfolding nonneg_on_def by (auto simp: list_all_iff js_finite_iff)

lemma updates_nonneg_append:
  "updates_nonneg (xs @ ys) \<longleftrightarrow> updates_nonneg xs \<and> updates_nonneg ys"
  by (simp add: updates_nonneg_def)

section \<open>The sell phase keeps the invariant\<close>

lemma sell_trade_inv:
  assumes pp: "positive_on prices ks" and wn: "nonneg_on (weights b) ks"
    and base: "baseToken b \<in> set ks" and T: "0 \<le> T" and tr: "fst tr \<in> set ks"
    and inv: "pass_inv b cw prices T ks st"
  shows "pass_inv b cw prices T ks (sell_trade b w prices (Num T) st tr)"
proof -
  let ?tok = "fst tr"
  have ks: "keys (bal st) = ks" and nn: "nonneg_map (bal st)"
    and un: "updates_nonneg (trace st)"
    and ow: "list_all (overweight_ok b cw prices T (bal st)) ks"
    using inv by (simp_all add: pass_inv_def bal_inv_def)
  obtain x where x: "get (bal st) ?tok = Num x" "0 \<le> x"
    using nonneg_map_get[OF nn] tr ks by blast
  obtain y where y: "get (bal st) (baseToken b) = Num y" "0 \<le> y"
    using nonneg_map_get[OF nn] base ks by blast
  obtain p where p: "get prices ?tok = Num p" "0 < p"
    using positive_on_get[OF pp tr] by blast
  obtain q where q: "get prices (baseToken b) = Num q" "0 < q"
    using positive_on_get[OF pp base] by blast
  obtain om where om: "get (weights b) ?tok = Num om" "0 \<le> om"
    using nonneg_on_get[OF wn tr] by blast
  show ?thesis
  proof (cases rule: sell_trade_cases[where b = b and prices = prices and totalValue = "Num T"
        and st = st and tr = tr and w = w])
    case skipped
    then show ?thesis
      using inv by (simp add: pass_inv_def bal_inv_def updates_nonneg_append updates_nonneg_def)
  next
    case failed
    then show ?thesis
      using inv by (simp add: pass_inv_def bal_inv_def updates_nonneg_append updates_nonneg_def)
  next
    case rejected
    then show ?thesis
      using inv by (simp add: pass_inv_def bal_inv_def updates_nonneg_append updates_nonneg_def)
  next
    case sold
    let ?st' = "sell_trade b w prices (Num T) st tr"
    have ex: "0 < x * p - T * om"
      using sold(1) p x om by (simp add: js_ge_def js_sub_def field_simps split: if_splits)
    have newx: "x - (x * p - T * om) / p = T * om / p"
      using p(2) by (simp add: field_simps)
    have b': "bal ?st' =
        put (put (bal st) ?tok (Num (T * om / p))) (baseToken b)
          (Num (y + (x * p - T * om) / q * (98 / 100)))"
      using sold(2,4) x y p q om newx by (simp add: get_put js_sub_def)
    have nn': "nonneg_map (bal ?st')"
      unfolding b' using nn T om(2) p(2) y(2) q(2) ex
      by (intro nonneg_map_put) simp_all
    have ks': "keys (bal ?st') = ks"
      unfolding b' using ks tr base by (simp add: keys_put)
    have un': "updates_nonneg (trace ?st')"
      using sold(5) un nn' by (simp add: updates_nonneg_append updates_nonneg_def)
    have ow': "overweight_ok b cw prices T (bal ?st') t" if "t \<in> set ks" for t
    proof (cases "t = baseToken b \<or> t = ?tok")
      case True
      then show ?thesis
        unfolding b' using p om sold(2)
        by (auto simp: overweight_ok_def excess_of_def get_put)
    next
      case False
      then have "excess_of b prices T (bal ?st') t = excess_of b prices T (bal st) t"
        unfolding b' by (simp add: excess_of_def get_put)
      then show ?thesis
        using ow that by (simp add: overweight_ok_def list_all_iff)
    qed
    show ?thesis
      using nn' ks' un' ow' by (simp add: pass_inv_def bal_inv_def list_all_iff)
  qed
qed

lemma sell_phase_inv:
  assumes "positive_on prices ks" "nonneg_on (weights b) ks" "baseToken b \<in> set ks" "0 \<le> T"
    and "fst ` set trs \<subseteq> set ks" and "pass_inv b cw prices T ks st"
  shows "pass_inv b cw prices T ks (sell_phase b w prices (Num T) st trs)"
  using assms(5,6)
proof (induction trs arbitrary: st)
  case Nil
  then show ?case by (simp add: sell_phase_def)
next
  case (Cons tr trs)
  have "pass_inv b cw prices T ks (sell_trade b w prices (Num T) st tr)"
    using assms(1-4) Cons.prems by (intro sell_trade_inv) auto
  then show ?case using Cons by (simp add: sell_phase_def)
qed

section \<open>The weights of the weight calculator on well-formed maps\<close>

lemma get_map_keys: "t \<in> set ks \<Longrightarrow> get (map (\<lambda>k. (k, f k)) ks) t = f t"
  by (simp add: get_def map_of_map_restrict)

lemma keys_calculateWeights: "keys (calculateWeights balances prices) = keys balances"
  by (simp add: calculateWeights_def keys_def Let_def o_def)

lemma well_formed_values:
  assumes "nonneg_map balances" "positive_on prices (keys balances)" "t \<in> set (keys balances)"
  shows "\<exists>x p. get balances t = Num x \<and> get prices t = Num p \<and> 0 \<le> x \<and> 0 < p"
  using nonneg_map_get[OF assms(1,3)] positive_on_get[OF assms(2,3)] by blast

lemma well_formed_totals:
  assumes "nonneg_map balances" "positive_on prices (keys balances)"
  defines "T \<equiv> sum_list (map (\<lambda>t. the_real (get balances t) * the_real (get prices t))
                          (keys balances))"
  shows "rebalance_totalValue balances prices = Num T"
    and "weights_totalValue balances prices = Num T"
    and "0 \<le> T"
    and "\<And>t. t \<in> set (keys balances) \<Longrightarrow>
           the_real (get balances t) * the_real (get prices t) \<le> T"
proof -
  let ?v = "\<lambda>t. js_mul (get balances t) (get prices t)"
  have v: "?v t = Num (the_real (get balances t) * the_real (get prices t))
           \<and> 0 \<le> the_real (get balances t) * the_real (get prices t)"
    if "t \<in> set (keys balances)" for t
    using well_formed_values[OF assms(1,2) that] by auto
  then have fin: "list_all js_finite (map ?v (keys balances))"
    by (simp add: list_all_iff)
  have the: "map the_real (map ?v (keys balances))
      = map (\<lambda>t. the_real (get balances t) * the_real (get prices t)) (keys balances)"
    using v by simp
  have s: "foldl js_add (Num 0) (map ?v (keys balances)) = Num T"
    using foldl_add_finite[OF fin, of 0] by (simp only: the T_def add_0)
  then show "rebalance_totalValue balances prices = Num T"
    by (simp add: rebalance_totalValue_def foldl_map)
  have "map (\<lambda>t. nan0 (token_value balances prices t)) (keys balances) = map ?v (keys balances)"
    using v by (simp add: nan0_def token_value_def)
  then show "weights_totalValue balances prices = Num T"
    using s by (simp only: total_as_sum js_sum_def)
  show "0 \<le> T"
    unfolding T_def using v by (intro sum_list_nonneg) auto
  show "the_real (get balances t) * the_real (get prices t) \<le> T"
    if "t \<in> set (keys balances)" for t
    unfolding T_def using v that
    by (intro member_le_sum_list) auto
qed

lemma initial_inv:
  assumes wf: "well_formed b balances prices"
  obtains T where "0 \<le> T" "rebalance_totalValue balances prices = Num T"
    "pass_inv b (calculateWeights balances prices) prices T (keys balances)
       \<lparr>bal = balances, answered = 0, trace = []\<rparr>"
proof -
  let ?ks = "keys balances"
  let ?cw = "calculateWeights balances prices"
  have nn: "nonneg_map balances" and pp: "positive_on prices ?ks"
    and wn: "nonneg_on (weights b) ?ks"
    using wf by (simp_all add: well_formed_def)
  define T where "T = sum_list (map (\<lambda>t. the_real (get balances t) * the_real (get prices t)) ?ks)"
  have rt: "rebalance_totalValue balances prices = Num T"
    and wt: "weights_totalValue balances prices = Num T" and T0: "0 \<le> T"
    and le: "\<And>t. t \<in> set ?ks \<Longrightarrow> the_real (get balances t) * the_real (get prices t) \<le> T"
    using well_formed_totals[OF nn pp] unfolding T_def by blast+
  have ow: "overweight_ok b ?cw prices T balances t" if t: "t \<in> set ?ks" for t
  proof -
    obtain x p where xp: "get balances t = Num x" "get prices t = Num p" "0 \<le> x" "0 < p"
      using well_formed_values[OF nn pp t] by blast
    obtain om where om: "get (weights b) t = Num om" "0 \<le> om"
      using nonneg_on_get[OF wn t] by blast
    have xpT: "x * p \<le> T" using le[OF t] xp by simp
    have c: "get ?cw t = Num (if T = 0 then 0 else x * p / T)"
      using t xp wt
      by (simp add: calculateWeights_def Let_def get_map_keys token_value_def js_or0_def
          js_falsy_def)
    have d: "js_gt (deviation b ?cw t) (Num 0) \<longleftrightarrow> 0 < (if T = 0 then 0 else x * p / T) - om"
      by (simp add: deviation_def c om js_sub_def js_gt_def)
    have e: "excess_of b prices T balances t = x * p - T * om"
      by (simp add: excess_of_def xp om)
    show ?thesis
    proof (cases "T = 0")
      case True
      have "0 \<le> x * p" using xp by simp
      then have "x * p = 0" using xpT True by linarith
      then show ?thesis using True om d e by (auto simp: overweight_ok_def)
    next
      case False
      then have "0 < T" using T0 by simp
      then have "0 < x * p / T - om \<longleftrightarrow> 0 < x * p - T * om"
        by (simp add: field_simps)
      then show ?thesis using False d e by (simp add: overweight_ok_def)
    qed
  qed
  have "pass_inv b ?cw prices T ?ks \<lparr>bal = balances, answered = 0, trace = []\<rparr>"
    using nn ow by (simp add: pass_inv_def bal_inv_def updates_nonneg_def list_all_iff)
  then show ?thesis using that T0 rt by blast
qed

section \<open>The deficit phase and the buy phase keep balances non-negative\<close>

lemma bal_inv_quiet_step:
  assumes "bal_inv ks st" "bal st' = bal st" "trace st' = trace st @ evs"
    "list_all (\<lambda>e. \<forall>ph m. e \<noteq> Updated ph m) evs"
  shows "bal_inv ks st'"
proof -
  have "updates_nonneg evs"
    using assms(4) unfolding updates_nonneg_def
    by (induction evs) (auto split: event.splits)
  then show ?thesis
    using assms(1-3) by (simp add: bal_inv_def updates_nonneg_append)
qed

lemma tokens_find_overweight:
  "map ow_token (find_overweight b cw balances prices totalValue ks)
     = filter (\<lambda>t. t \<noteq> baseToken b \<and> js_gt (deviation b cw t) (Num 0)) ks"
  by (induction ks) (auto simp: Let_def)

lemma excess_find_overweight:
  "c \<in> set (find_overweight b cw balances prices totalValue ks) \<Longrightarrow>
   ow_excessValue c =
     js_sub (js_mul (get balances (ow_token c)) (get prices (ow_token c)))
       (js_mul totalValue (get (weights b) (ow_token c)))"
  by (induction ks) (auto simp: Let_def split: if_splits)

lemma set_overweightTokens:
  "set (overweightTokens b cw balances prices totalValue)
     = set (find_overweight b cw balances prices totalValue (keys cw))"
  by (simp add: overweightTokens_def set_js_sort)

lemma distinct_overweightTokens:
  assumes "distinct (keys cw)"
  shows "distinct (map ow_token (overweightTokens b cw balances prices totalValue))"
proof -
  have "mset (map ow_token (overweightTokens b cw balances prices totalValue))
      = mset (map ow_token (find_overweight b cw balances prices totalValue (keys cw)))"
    by (simp add: overweightTokens_def mset_js_sort)
  moreover have "distinct (map ow_token (find_overweight b cw balances prices totalValue (keys cw)))"
    using assms by (simp add: tokens_find_overweight)
  ultimately show ?thesis by (metis mset_eq_imp_distinct_iff)
qed

lemma deficit_loop_inv:
  assumes pp: "positive_on prices ks" and wn: "nonneg_on (weights b) ks"
    and base: "baseToken b \<in> set ks" and T: "0 \<le> T"
    and inv: "bal_inv ks st"
    and rem: "js_finite rem"
    and cands: "\<forall>c \<in> set cands. ow_token c \<in> set ks \<and> ow_token c \<noteq> baseToken b
        \<and> (\<exists>e. ow_excessValue c = Num e \<and> 0 \<le> e
               \<and> e \<le> excess_of b prices T (bal st) (ow_token c))"
    and dist: "distinct (map ow_token cands)"
  shows "bal_inv ks (deficit_loop b w prices rem st cands)"
  using inv rem cands dist
proof (induction cands arbitrary: rem st)
  case Nil
  then show ?case by simp
next
  case (Cons c rest)
  let ?tok = "ow_token c"
  have tok: "?tok \<in> set ks" "?tok \<noteq> baseToken b" using Cons.prems(3) by auto
  obtain e where e: "ow_excessValue c = Num e" "0 \<le> e"
    "e \<le> excess_of b prices T (bal st) ?tok"
    using Cons.prems(3) by auto
  have ks: "keys (bal st) = ks" and nn: "nonneg_map (bal st)"
    using Cons.prems(1) by (simp_all add: bal_inv_def)
  have rest: "\<forall>c \<in> set rest. ow_token c \<in> set ks \<and> ow_token c \<noteq> baseToken b
        \<and> (\<exists>e. ow_excessValue c = Num e \<and> 0 \<le> e
               \<and> e \<le> excess_of b prices T (bal st) (ow_token c))"
    and drest: "distinct (map ow_token rest)" and notin: "?tok \<notin> ow_token ` set rest"
    using Cons.prems(3,4) by auto
  obtain r where r: "rem = Num r" using Cons.prems(2) by (auto simp: js_finite_iff)
  show ?case
  proof (cases rule: deficit_loop_cases[where b = b and prices = prices and rem = rem
        and st = st and ow = c and rest = rest and w = w])
    case enough
    then show ?thesis using Cons.prems(1) by (intro bal_inv_quiet_step[OF _ enough(2,3)]) simp_all
  next
    case skip
    let ?st1 = "emit (DeficitSkip ?tok (ow_excessValue c) rem (js_min (ow_excessValue c) rem)) st"
    have "bal_inv ks ?st1"
      using Cons.prems(1)
      by (rule bal_inv_quiet_step[where evs = "[DeficitSkip ?tok (ow_excessValue c) rem
                (js_min (ow_excessValue c) rem)]"]) (simp_all add: emit_def)
    moreover have "bal ?st1 = bal st" by (simp add: emit_def)
    ultimately show ?thesis
      using skip(3) Cons.IH[of ?st1 rem] Cons.prems(2) rest drest by simp
  next
    case (failed st1)
    have "bal_inv ks st1"
      using Cons.prems(1) by (rule bal_inv_quiet_step[OF _ failed(3,4)]) simp
    then show ?thesis
      using failed(3,5) Cons.IH[of st1 rem] Cons.prems(2) rest drest by simp
  next
    case (rejected st1)
    have "bal_inv ks st1"
      using Cons.prems(1) by (rule bal_inv_quiet_step[OF _ rejected(5,6)]) simp
    then show ?thesis
      using rejected(5,7) Cons.IH[of st1 rem] Cons.prems(2) rest drest by simp
  next
    case (sold st1)
    obtain x where x: "get (bal st) ?tok = Num x" "0 \<le> x"
      using nonneg_map_get[OF nn] tok(1) ks by blast
    obtain y where y: "get (bal st) (baseToken b) = Num y" "0 \<le> y"
      using nonneg_map_get[OF nn] base ks by blast
    obtain p where p: "get prices ?tok = Num p" "0 < p"
      using positive_on_get[OF pp tok(1)] by blast
    obtain q where q: "get prices (baseToken b) = Num q" "0 < q"
      using positive_on_get[OF pp base] by blast
    obtain om where om: "get (weights b) ?tok = Num om" "0 \<le> om"
      using nonneg_on_get[OF wn tok(1)] by blast
    have r1: "1 < r" using sold(1) r by simp
    have v: "js_min (ow_excessValue c) rem = Num (min e r)"
      using e(1) r by (simp add: js_min_def min_def)
    have m0: "0 \<le> min e r" using e(2) r1 by simp
    have "e \<le> x * p - T * om" using e(3) x p om by (simp add: excess_of_def)
    moreover have "0 \<le> T * om" using T om(2) by simp
    ultimately have "min e r \<le> x * p" by linarith
    then have mx: "min e r / p \<le> x" using p(2) by (simp add: field_simps)
    have b1: "bal st1 =
        put (put (bal st) ?tok (Num (x - min e r / p))) (baseToken b)
          (Num (y + min e r / q * (98 / 100)))"
      using sold(5) v x y p q tok(2) by (simp add: get_put js_sub_def)
    have nn1: "nonneg_map (bal st1)"
      unfolding b1 using nn mx m0 y(2) q(2) by (intro nonneg_map_put) simp_all
    have ks1: "keys (bal st1) = ks"
      unfolding b1 using ks tok(1) base by (simp add: keys_put)
    have "updates_nonneg (trace st1)"
      using sold(6) Cons.prems(1) nn1
      by (simp add: bal_inv_def updates_nonneg_append updates_nonneg_def)
    then have inv1: "bal_inv ks st1" using nn1 ks1 by (simp add: bal_inv_def)
    have rem1: "js_finite (js_sub rem (js_min (ow_excessValue c) rem))"
      using v r by (simp add: js_sub_def)
    have rest1: "\<forall>c' \<in> set rest. ow_token c' \<in> set ks \<and> ow_token c' \<noteq> baseToken b
        \<and> (\<exists>e. ow_excessValue c' = Num e \<and> 0 \<le> e
               \<and> e \<le> excess_of b prices T (bal st1) (ow_token c'))"
    proof
      fix c' assume c': "c' \<in> set rest"
      have ne1: "ow_token c' \<noteq> ?tok" using notin c' by (metis imageI)
      have ne2: "ow_token c' \<noteq> baseToken b" using rest c' by blast
      from ne1 ne2 have "excess_of b prices T (bal st1) (ow_token c')
               = excess_of b prices T (bal st) (ow_token c')"
        unfolding b1 by (simp add: excess_of_def get_put)
      then show "ow_token c' \<in> set ks \<and> ow_token c' \<noteq> baseToken b
        \<and> (\<exists>e. ow_excessValue c' = Num e \<and> 0 \<le> e
               \<and> e \<le> excess_of b prices T (bal st1) (ow_token c'))"
        using rest c' by simp
    qed
    show ?thesis
      using sold(7) Cons.IH[OF inv1 rem1 rest1 drest] by simp
  qed
qed

lemma candidates_excess:
  assumes pp: "positive_on prices ks" and wn: "nonneg_on (weights b) ks"
    and kcw: "keys cw = ks"
    and inv: "pass_inv b cw prices T ks st"
    and c: "c \<in> set (overweightTokens b cw (bal st) prices (Num T))"
  shows "ow_token c \<in> set ks \<and> ow_token c \<noteq> baseToken b
       \<and> js_gt (deviation b cw (ow_token c)) (Num 0)
       \<and> ow_excessValue c = Num (excess_of b prices T (bal st) (ow_token c))
       \<and> 0 \<le> excess_of b prices T (bal st) (ow_token c)"
proof -
  let ?tok = "ow_token c"
  have c': "c \<in> set (find_overweight b cw (bal st) prices (Num T) (keys cw))"
    using c by (simp add: set_overweightTokens)
  then have "?tok \<in> set (map ow_token (find_overweight b cw (bal st) prices (Num T) (keys cw)))"
    by simp
  then have tok: "?tok \<in> set ks" "?tok \<noteq> baseToken b" "js_gt (deviation b cw ?tok) (Num 0)"
    using kcw by (simp_all add: tokens_find_overweight)
  have nn: "nonneg_map (bal st)" and ks: "keys (bal st) = ks"
    and ow: "overweight_ok b cw prices T (bal st) ?tok"
    using inv tok(1) by (simp_all add: pass_inv_def bal_inv_def list_all_iff)
  obtain x where x: "get (bal st) ?tok = Num x"
    using nonneg_map_get[OF nn] tok(1) ks by blast
  obtain p where p: "get prices ?tok = Num p"
    using positive_on_get[OF pp tok(1)] by blast
  obtain om where om: "get (weights b) ?tok = Num om"
    using nonneg_on_get[OF wn tok(1)] by blast
  have "ow_excessValue c = Num (excess_of b prices T (bal st) ?tok)"
    using excess_find_overweight[OF c'] x p om by (simp add: excess_of_def js_sub_def)
  moreover have "0 \<le> excess_of b prices T (bal st) ?tok"
    using ow tok(2,3) by (simp add: overweight_ok_def)
  ultimately show ?thesis using tok by simp
qed

lemma deficit_phase_inv:
  assumes pp: "positive_on prices ks" and wn: "nonneg_on (weights b) ks"
    and base: "baseToken b \<in> set ks" and T: "0 \<le> T"
    and kcw: "keys cw = ks" and dk: "distinct ks"
    and inv: "pass_inv b cw prices T ks st"
  shows "bal_inv ks (deficit_phase b w cw prices (Num T) st buys)"
proof (cases "find (\<lambda>t. fst t = baseToken b) buys")
  case None
  then show ?thesis using inv by (simp add: deficit_phase_def pass_inv_def)
next
  case (Some a)
  let ?st0 = "emit (Processing DeficitPhase (baseToken b)) st"
  have b0: "bal ?st0 = bal st" by (simp add: emit_def)
  have inv0: "bal_inv ks ?st0"
  proof (rule bal_inv_quiet_step[where st = st and evs = "[Processing DeficitPhase (baseToken b)]"])
    show "bal_inv ks st" using inv by (simp add: pass_inv_def)
  qed (simp_all add: emit_def)
  have nn: "nonneg_map (bal st)" and ks: "keys (bal st) = ks"
    using inv by (simp_all add: pass_inv_def bal_inv_def)
  obtain y where y: "get (bal st) (baseToken b) = Num y"
    using nonneg_map_get[OF nn] base ks by blast
  obtain q where q: "get prices (baseToken b) = Num q"
    using positive_on_get[OF pp base] by blast
  obtain om where om: "get (weights b) (baseToken b) = Num om"
    using nonneg_on_get[OF wn base] by blast
  have fin: "js_finite (neededWethValue b prices (Num T) (bal ?st0))"
    using y q om by (simp add: neededWethValue_def b0 js_sub_def)
  have cands: "\<forall>c \<in> set (overweightTokens b cw (bal ?st0) prices (Num T)).
        ow_token c \<in> set ks \<and> ow_token c \<noteq> baseToken b
        \<and> (\<exists>e. ow_excessValue c = Num e \<and> 0 \<le> e
               \<and> e \<le> excess_of b prices T (bal ?st0) (ow_token c))"
    unfolding b0 using candidates_excess[OF pp wn kcw inv] by fastforce
  have "bal_inv ks (deficit_loop b w prices (neededWethValue b prices (Num T) (bal ?st0)) ?st0
                      (overweightTokens b cw (bal ?st0) prices (Num T)))"
    using pp wn base T inv0 fin cands
  proof (rule deficit_loop_inv)
    show "distinct (map ow_token (overweightTokens b cw (bal ?st0) prices (Num T)))"
      using dk kcw by (intro distinct_overweightTokens) simp
  qed
  then show ?thesis using Some by (simp add: deficit_phase_def Let_def)
qed

lemma buy_trade_inv:
  assumes pp: "positive_on prices ks" and wn: "nonneg_on (weights b) ks"
    and base: "baseToken b \<in> set ks" and tr: "fst tr \<in> set ks"
    and inv: "bal_inv ks st"
  shows "bal_inv ks (buy_trade b w prices (Num T) st tr)"
proof -
  let ?tok = "fst tr"
  have ks: "keys (bal st) = ks" and nn: "nonneg_map (bal st)"
    using inv by (simp_all add: bal_inv_def)
  obtain x where x: "get (bal st) ?tok = Num x"
    using nonneg_map_get[OF nn] tr ks by blast
  obtain y where y: "get (bal st) (baseToken b) = Num y" "0 \<le> y"
    using nonneg_map_get[OF nn] base ks by blast
  obtain p where p: "get prices ?tok = Num p"
    using positive_on_get[OF pp tr] by blast
  obtain q where q: "get prices (baseToken b) = Num q" "0 < q"
    using positive_on_get[OF pp base] by blast
  obtain om where om: "get (weights b) ?tok = Num om"
    using nonneg_on_get[OF wn tr] by blast
  show ?thesis
  proof (cases rule: buy_trade_cases[where b = b and prices = prices and totalValue = "Num T"
        and st = st and tr = tr and w = w])
    case base
    then show ?thesis using inv by (intro bal_inv_quiet_step[OF inv base(2,3)]) simp_all
  next
    case skipped
    then show ?thesis using inv by (intro bal_inv_quiet_step[OF inv skipped(3,4)]) simp_all
  next
    case failed
    then show ?thesis using inv by (intro bal_inv_quiet_step[OF inv failed(4,5)]) simp_all
  next
    case rejected
    then show ?thesis using inv by (intro bal_inv_quiet_step[OF inv rejected(5,6)]) simp_all
  next
    case bought
    let ?st' = "buy_trade b w prices (Num T) st tr"
    have le: "(T * om - x * p) / q \<le> y"
      using bought(3) x y p q om by (simp add: js_ge_def js_sub_def)
    have b': "bal ?st' = put (bal st) (baseToken b) (Num (y - (T * om - x * p) / q))"
      using bought(5) x y p q om by (simp add: js_sub_def)
    have nn': "nonneg_map (bal ?st')"
      unfolding b' using nn le by (intro nonneg_map_put) simp_all
    have ks': "keys (bal ?st') = ks"
      unfolding b' using ks \<open>baseToken b \<in> set ks\<close> by (simp add: keys_put)
    have "updates_nonneg (trace ?st')"
      using bought(6) inv nn'
      by (simp add: bal_inv_def updates_nonneg_append updates_nonneg_def)
    then show ?thesis using nn' ks' by (simp add: bal_inv_def)
  qed
qed

lemma buy_phase_inv:
  assumes "positive_on prices ks" "nonneg_on (weights b) ks" "baseToken b \<in> set ks"
    and "fst ` set trs \<subseteq> set ks" and "bal_inv ks st"
  shows "bal_inv ks (buy_phase b w prices (Num T) st trs)"
  using assms(4,5)
proof (induction trs arbitrary: st)
  case Nil
  then show ?case by (simp add: buy_phase_def)
next
  case (Cons tr trs)
  have "bal_inv ks (buy_trade b w prices (Num T) st tr)"
    using assms(1-3) Cons.prems by (intro buy_trade_inv) auto
  then show ?case using Cons by (simp add: buy_phase_def)
qed

lemma intent_tokens: "fst ` set (trade_intents b cw balances prices) \<subseteq> set (keys cw)"
  by (auto simp: trade_intents_def detect_trades_iff)

lemma sell_tokens: "fst ` set (sellTrades trades) \<subseteq> fst ` set trades"
  by (auto simp: sellTrades_def set_js_sort)

lemma buy_tokens: "fst ` set (buyTrades trades) \<subseteq> fst ` set trades"
  by (auto simp: buyTrades_def set_js_sort)

lemma rebalance_pass_inv:
  assumes wf: "well_formed b balances prices"
  shows "bal_inv (keys balances) (rebalance_pass b w balances prices)"
proof -
  let ?ks = "keys balances"
  let ?cw = "calculateWeights balances prices"
  let ?in = "trade_intents b ?cw balances prices"
  have pp: "positive_on prices ?ks" and wn: "nonneg_on (weights b) ?ks"
    and base: "baseToken b \<in> set ?ks" and dk: "distinct ?ks"
    using wf by (simp_all add: well_formed_def)
  obtain T where T: "0 \<le> T" "rebalance_totalValue balances prices = Num T"
    and inv0: "pass_inv b ?cw prices T ?ks \<lparr>bal = balances, answered = 0, trace = []\<rparr>"
    using initial_inv[OF wf] by blast
  have kcw: "keys ?cw = ?ks" by (rule keys_calculateWeights)
  have st: "fst ` set (sellTrades ?in) \<subseteq> set ?ks"
    using sell_tokens[of ?in] intent_tokens[of b ?cw balances prices] kcw by auto
  have bt: "fst ` set (buyTrades ?in) \<subseteq> set ?ks"
    using buy_tokens[of ?in] intent_tokens[of b ?cw balances prices] kcw by auto
  show ?thesis
  proof (cases "?in = []")
    case True
    then show ?thesis
      using inv0 by (simp add: rebalance_pass_def rebalance_unfold pass_inv_def)
  next
    case False
    let ?st1 = "sell_phase b w prices (Num T) \<lparr>bal = balances, answered = 0, trace = []\<rparr>
                  (sellTrades ?in)"
    let ?st2 = "deficit_phase b w ?cw prices (Num T) ?st1 (buyTrades ?in)"
    have 1: "pass_inv b ?cw prices T ?ks ?st1"
      using pp wn base T(1) st inv0 by (rule sell_phase_inv)
    have 2: "bal_inv ?ks ?st2"
      using pp wn base T(1) kcw dk 1 by (rule deficit_phase_inv)
    have "bal_inv ?ks (buy_phase b w prices (Num T) ?st2 (buyTrades ?in))"
      using pp wn base bt 2 by (rule buy_phase_inv)
    then show ?thesis
      using False T(2) by (simp add: rebalance_pass_def rebalance_unfold)
  qed
qed
section \<open>Balances that go negative\<close>

text \<open>
  The invariants above show that on exact reals, with target weights that are not
  negative, no balance update of a pass writes a negative number.  The sell phase and
  the deficit phase do not compare the amount they subtract with the balance (the buy
  phase does: \<^verbatim>\<open>balances[this.baseToken] >= wethAmount\<close>), so the balance of the
  token sold goes below zero when the amount is rounded up past the balance, and when a
  target weight is negative.
\<close>

lemma ex5_weights_d:
  "calculateWeights_d ex5_balances ex5_prices = [(''A'', Num 1), (''WETH'', Num 0)]"
  by (simp add: calculateWeights_d_def weights_totalValue_d_def ex5_balances_def ex5_prices_def
      keys_def get_def token_value_d_def d_mul_def d_add_def d_div_def js_or0_def js_falsy_def
      fl_eval)

lemma ex5_total_d:
  "rebalance_totalValue_d ex5_balances ex5_prices = Num (4581005245965927 / 70368744177664)"
  by (simp add: rebalance_totalValue_d_def ex5_balances_def ex5_prices_def keys_def get_def
      d_mul_def d_add_def fl_eval)

lemma ex5_intents_d:
  "trade_intents_d ex5_bot (calculateWeights_d ex5_balances ex5_prices) ex5_balances ex5_prices
     = [(''A'', Num 1), (''WETH'', Num (- 1))]"
  unfolding trade_intents_d_def ex5_total_d ex5_weights_d
  by (simp add: keys_def get_def deviation_d_def d_sub_def d_mul_def js_sub_def js_gt_def
      ex5_bot_def bot_of_def fl_eval)

lemma ex5_sellAmount_d:
  "sellAmount_d ex5_bot ex5_balances ex5_prices
     (Num (4581005245965927 / 70368744177664)) ''A'' = Num (21 + 1 / 2 ^ 48)"
  by (simp add: sellAmount_d_def excessValue_d_def ex5_bot_def bot_of_def ex5_balances_def
      ex5_prices_def get_def d_mul_def d_sub_def d_div_def js_sub_def fl_eval)

lemma ex5_sold_d:
  "get (sold_d ex5_bot ex5_balances ex5_prices (Num (4581005245965927 / 70368744177664)) ''A'')
     ''A'' = Num (- (1 / 2 ^ 48))"
  by (simp add: sold_d_def excessValue_d_def ex5_bot_def bot_of_def ex5_balances_def
      ex5_prices_def get_def put_def d_mul_def d_sub_def d_div_def d_add_def js_sub_def fl_eval)

lemma ex6_weights:
  "calculateWeights ex6_balances ex6_prices = [(''A'', Num 1), (''WETH'', Num 0)]"
  by (simp add: calculateWeights_def weights_totalValue_def ex6_balances_def ex6_prices_def
      keys_def get_def token_value_def js_or0_def js_falsy_def)

lemma ex6_intents:
  "trade_intents ex6_bot (calculateWeights ex6_balances ex6_prices) ex6_balances ex6_prices =
     [(''A'', Num (3 / 2)), (''WETH'', Num (- (3 / 2)))]"
  unfolding ex6_weights
  by (simp add: trade_intents_def ex6_bot_def bot_of_def ex6_balances_def ex6_prices_def
      keys_def get_def deviation_def js_sub_def js_gt_def rebalance_totalValue_def Let_def)

lemma ex6_sells:
  "sellTrades [(''A'', Num (3 / 2)), (''WETH'', Num (- (3 / 2)))] = [(''A'', Num (3 / 2))]"
  by (simp add: sellTrades_def js_sort_def js_gt_def js_sub_def)

lemma ex6_buys:
  "buyTrades [(''A'', Num (3 / 2)), (''WETH'', Num (- (3 / 2)))] = [(''WETH'', Num (- (3 / 2)))]"
  by (simp add: buyTrades_def js_sort_def js_gt_def js_sub_def)

lemma ex6_pass:
  "bal (rebalance_pass ex6_bot accepting ex6_balances ex6_prices)
     = [(''A'', Num (- 5)), (''WETH'', Num (147 / 10))]"
  apply (simp only: rebalance_pass_def rebalance_unfold ex6_intents ex6_sells ex6_buys)
  apply (simp only: ex6_weights)
  by (simp add: ex6_bot_def bot_of_def ex6_balances_def ex6_prices_def accepting_def
      rebalance_totalValue_def keys_def get_def put_def
      sell_phase_def sell_trade_def swap_def emit_def Let_def js_ge_def js_sub_def
      deficit_phase_def neededWethValue_def overweightTokens_def deviation_def js_gt_def
      js_sort_def buy_phase_def buy_trade_def js_min_def)

text \<open>
  Claim C2 fails on the code.  On doubles, with 21 A at the price 3.1 and a
  target of 0 for A, A is in the sell set, the amount to sell is the value
  65.10000000000001 over 3.1, which is rounded to \<open>21 + 2 ^ - 48\<close>, above the
  balance, and the sale leaves \<open>- 2 ^ - 48\<close> A.  With a target of \<open>-0.5\<close> for A
  and 10 A at the price 1 the pass sells 15 A and leaves \<open>-5\<close>; every number of that
  pass is exact.  Both inputs have balances that are not negative and positive prices.
\<close>

theorem sale_leaves_negative_balance:
  "nonneg_map ex5_balances \<and> positive_on ex5_prices (keys ex5_balances)
   \<and> sellTrades (trade_intents_d ex5_bot (calculateWeights_d ex5_balances ex5_prices)
        ex5_balances ex5_prices) = [(''A'', Num 1)]
   \<and> sellAmount_d ex5_bot ex5_balances ex5_prices
        (rebalance_totalValue_d ex5_balances ex5_prices) ''A'' = Num (21 + 1 / 2 ^ 48)
   \<and> get (sold_d ex5_bot ex5_balances ex5_prices
        (rebalance_totalValue_d ex5_balances ex5_prices) ''A'') ''A'' = Num (- (1 / 2 ^ 48))
   \<and> nonneg_map ex6_balances \<and> positive_on ex6_prices (keys ex6_balances)
   \<and> bal (rebalance_pass ex6_bot accepting ex6_balances ex6_prices)
       = [(''A'', Num (- 5)), (''WETH'', Num (147 / 10))]"
proof -
  have 1: "nonneg_map ex5_balances \<and> positive_on ex5_prices (keys ex5_balances)
         \<and> nonneg_map ex6_balances \<and> positive_on ex6_prices (keys ex6_balances)"
    by (simp add: nonneg_map_def positive_on_def ex5_balances_def ex5_prices_def
        ex6_balances_def ex6_prices_def keys_def get_def)
  have 2: "sellTrades (trade_intents_d ex5_bot (calculateWeights_d ex5_balances ex5_prices)
        ex5_balances ex5_prices) = [(''A'', Num 1)]"
    unfolding ex5_intents_d by (simp add: sellTrades_def js_sort_def js_gt_def)
  show ?thesis
    using 1 2 ex5_sellAmount_d ex5_sold_d ex6_pass unfolding ex5_total_d by blast
qed

section \<open>The trace of the deficit phase\<close>








section \<open>The base-token deficit phase\<close>





subsection \<open>The deficit example\<close>











subsection \<open>A rounding tie\<close>







end
